theory Spec2Isabelle
  imports Complex_Main "HOL-Library.Char_ord" "HOL-Library.List_Lexorder"
begin

section \<open>The distance and network engine of bgc\_networks.py\<close>

text \<open>
  A shallow embedding of the functions of \<^verbatim>\<open>bgc_networks.py\<close> that compute the
  pairwise distances between gene clusters and assemble the network files.
  Python floats are read as real numbers: the rounding of double arithmetic is not modelled,
  so a value that is exactly 0 here can be a rounding error away from 0 in the program unless
  the text of a property says otherwise. A raised exception is the left summand of the
  result. Python sets of hashable values are lists without duplicates (\<open>remdups\<close>):
  the source only counts their elements or sums over them.
\<close>

subsection \<open>Exceptions and arithmetic\<close>

datatype error = KeyError | ValueError | IndexError | ZeroDivisionError | UnboundLocalError | IOError

text \<open>Float division \<^verbatim>\<open>a / float(b)\<close>: raises on a zero divisor.\<close>

definition py_div :: "real \<Rightarrow> real \<Rightarrow> error + real" where
  "py_div a b = (if b = 0 then Inl ZeroDivisionError else Inr (a / b))"

text \<open>\<^verbatim>\<open>set(A) & set(B)\<close>, as a duplicate-free list.\<close>

definition py_inter :: "'a list \<Rightarrow> 'a list \<Rightarrow> 'a list" where
  "py_inter A B = filter (\<lambda>x. x \<in> set B) (remdups A)"

subsection \<open>Strings and files\<close>

text \<open>\<^verbatim>\<open>s.split(sep)\<close> with a one-character separator: every occurrence splits, empty
  pieces are kept, and the empty string gives one empty piece.\<close>

fun py_split :: "char \<Rightarrow> string \<Rightarrow> string list" where
  "py_split sep [] = [[]]"
| "py_split sep (c # cs) =
     (if c = sep then [] # py_split sep cs
      else (case py_split sep cs of
              [] \<Rightarrow> [[c]]
            | w # ws \<Rightarrow> (c # w) # ws))"

text \<open>\<^verbatim>\<open>sep.join(xs)\<close>.\<close>

fun py_join :: "string \<Rightarrow> string list \<Rightarrow> string" where
  "py_join sep [] = []"
| "py_join sep [x] = x"
| "py_join sep (x # y # ys) = x @ sep @ py_join sep (y # ys)"

text \<open>\<^verbatim>\<open>handle.readline()\<close> on a freshly opened file: the text up to and including
  the first newline, or all of it when there is none.\<close>

fun readline :: "string \<Rightarrow> string" where
  "readline [] = []"
| "readline (c # cs) = (if c = CHR 0x0A then [c] else c # readline cs)"

text \<open>\<^verbatim>\<open>write_pfs(pfs_handle, domains)\<close>: the argument is the text already written to
  the handle, the result the text of the file when the handle is closed.\<close>

definition write_pfs :: "string \<Rightarrow> string list \<Rightarrow> string" where
  "write_pfs pfs_handle domains = fold (\<lambda>domain h. h @ domain @ '' '') domains pfs_handle"

text \<open>\<^verbatim>\<open>get_domain_list(filename)\<close> over a file system that maps names to file texts.\<close>

definition get_domain_list :: "(string \<rightharpoonup> string) \<Rightarrow> string \<Rightarrow> error + string list" where
  "get_domain_list fs filename =
     (case fs filename of
        None \<Rightarrow> Inl IOError
      | Some handle \<Rightarrow>
          (let domains_string = readline handle;
               domains = py_split CHR '' '' domains_string
           in Inr domains))"

subsection \<open>Distance on ordered domain lists (mode domain\_dist)\<close>

text \<open>The global weights \<^verbatim>\<open>Jaccardw\<close>, \<^verbatim>\<open>DDSw\<close> and \<^verbatim>\<open>GKw\<close>.\<close>

record weights =
  Jaccardw :: real
  DDSw :: real
  GKw :: real

text \<open>The list comprehension
  \<^verbatim>\<open>[(A[i],A[j]) for i in xrange(len(A)-nbhood) for j in xrange(i+1,i+nbhood)]\<close>.
  Every index it reads is below \<open>length A\<close> (lemma \<open>window_pairs_in_range\<close>).\<close>

definition window_pairs :: "'a list \<Rightarrow> int \<Rightarrow> ('a \<times> 'a) list" where
  "window_pairs A nbhood =
     concat (map (\<lambda>i. map (\<lambda>j. (A ! i, A ! j)) [Suc i ..< nat (int i + nbhood)])
                 [0 ..< nat (int (length A) - nbhood)])"

definition calculate_GK :: "'a list \<Rightarrow> 'a list \<Rightarrow> int \<Rightarrow> real" where
  "calculate_GK A B nbhood =
     (if length (py_inter A B) > 1 then
        (let pairsA = remdups (window_pairs A nbhood);
             pairsB = remdups (window_pairs B nbhood);
             allPairs = remdups (pairsA @ pairsB);
             Ns = length (filter (\<lambda>p. p \<in> set pairsA \<and> p \<in> set pairsB) allPairs);
             Nr = length (filter (\<lambda>p. \<not> (p \<in> set pairsA \<and> p \<in> set pairsB) \<and>
                                      ((p \<in> set pairsA \<and> prod.swap p \<in> set pairsB) \<or>
                                       (prod.swap p \<in> set pairsA \<and> p \<in> set pairsB))) allPairs);
             gamma = (if Nr + Ns = 0 then 0
                      else \<bar>real Nr - real Ns\<bar> / (real Nr + real Ns))
         in (1 + gamma) / 2)
      else 0)"

text \<open>The body of \<^verbatim>\<open>Distance_modified\<close> once \<^verbatim>\<open>A\<close> and \<^verbatim>\<open>B\<close> are bound.\<close>

definition Distance_of_lists :: "weights \<Rightarrow> 'a list \<Rightarrow> 'a list \<Rightarrow> int \<Rightarrow> error + real" where
  "Distance_of_lists w A B nbhood =
     (if length A = 0 \<or> length B = 0 then Inr 1
      else
        (let inter = int (length (py_inter A B));
             lenA = int (length (remdups A));
             lenB = int (length (remdups B))
         in case py_div (of_int inter) (of_int (2 * min lenA lenB - inter)) of
              Inl e \<Rightarrow> Inl e
            | Inr Jaccard \<Rightarrow>
               (let DDS = (\<Sum>p\<leftarrow>remdups (A @ B). \<bar>int (count_list A p) - int (count_list B p)\<bar>);
                    S = (\<Sum>p\<leftarrow>remdups (A @ B). max (int (count_list A p)) (int (count_list B p)))
                in case py_div (of_int DDS) (of_int S) of
                     Inl e \<Rightarrow> Inl e
                   | Inr DDS' \<Rightarrow>
                      (let DDS'' = exp (- DDS');
                           Ar = rev A;
                           GK = max (calculate_GK A B nbhood) (calculate_GK Ar B nbhood);
                           Distance = 1 - Jaccardw w * Jaccard - DDSw w * DDS'' - GKw w * GK
                       in if Distance < 0 then Inr 0 else Inr Distance))))"

text \<open>\<^verbatim>\<open>Distance_modified(clusterA, clusterB, repeat, nbhood)\<close>. The list
  \<^verbatim>\<open>repeats\<close> is bound to the empty list and never changed. With \<^verbatim>\<open>repeat\<close>
  neither 0 nor 1 the names \<^verbatim>\<open>A\<close> and \<^verbatim>\<open>B\<close> are unbound at their first use.\<close>

definition Distance_modified :: "weights \<Rightarrow> 'a list \<Rightarrow> 'a list \<Rightarrow> int \<Rightarrow> int \<Rightarrow> error + real" where
  "Distance_modified w clusterA clusterB repeat nbhood =
     (let repeats = [] in
      if repeat = 1 then
        Distance_of_lists w [i \<leftarrow> clusterA. True] [j \<leftarrow> clusterB. True] nbhood
      else if repeat = 0 then
        Distance_of_lists w [i \<leftarrow> clusterA. i \<notin> set repeats] [j \<leftarrow> clusterB. j \<notin> set repeats] nbhood
      else Inl UnboundLocalError)"

text \<open>The local variables \<^verbatim>\<open>Jaccard\<close>, \<^verbatim>\<open>DDS\<close> (after the exponential) and
  \<^verbatim>\<open>GK\<close> of \<^verbatim>\<open>Distance_modified\<close> as functions of the two lists; lemma
  \<open>Distance_of_lists_subscores\<close> gives the distance in terms of them.\<close>

definition Jaccard_index :: "'a list \<Rightarrow> 'a list \<Rightarrow> error + real" where
  "Jaccard_index A B =
     (let inter = int (length (py_inter A B));
          lenA = int (length (remdups A));
          lenB = int (length (remdups B))
      in py_div (of_int inter) (of_int (2 * min lenA lenB - inter)))"

definition DDS_index :: "'a list \<Rightarrow> 'a list \<Rightarrow> error + real" where
  "DDS_index A B =
     (let DDS = (\<Sum>p\<leftarrow>remdups (A @ B). \<bar>int (count_list A p) - int (count_list B p)\<bar>);
          S = (\<Sum>p\<leftarrow>remdups (A @ B). max (int (count_list A p)) (int (count_list B p)))
      in case py_div (of_int DDS) (of_int S) of
           Inl e \<Rightarrow> Inl e
         | Inr DDS' \<Rightarrow> Inr (exp (- DDS')))"

definition GK_index :: "'a list \<Rightarrow> 'a list \<Rightarrow> int \<Rightarrow> real" where
  "GK_index A B nbhood =
     (let Ar = rev A in max (calculate_GK A B nbhood) (calculate_GK Ar B nbhood))"

subsection \<open>Removing overlapping domain hits\<close>

text \<open>One row of the domain table. The source keeps a row as a list of nine strings and
  converts on use; the fields read with \<^verbatim>\<open>int(...)\<close> and \<^verbatim>\<open>float(...)\<close> are kept
  here as the numbers read: row[0] cluster, row[1] score, row[2] gene id, row[3] and row[4]
  the envelope coordinates, row[5] strand, row[6] Pfam accession, row[7] (row[-2]) domain name,
  row[8] the header of the coding sequence.\<close>

record pfd_row =
  gbk :: string
  score :: real
  gene_id :: string
  env_from :: int
  env_to :: int
  strand :: string
  pfam_id :: string
  domain_name :: string
  cds_header :: string

definition no_overlap :: "int \<Rightarrow> int \<Rightarrow> int \<Rightarrow> int \<Rightarrow> bool" where
  "no_overlap locA1 locA2 locB1 locB2 =
     (if locA1 < locB1 \<and> locA2 < locB1 then True
      else if locA1 > locB2 \<and> locA2 > locB2 then True
      else False)"

definition overlap_perc :: "int \<Rightarrow> int \<Rightarrow> error + real" where
  "overlap_perc ovl len_seq =
     (if len_seq = 0 then Inl ZeroDivisionError else Inr (real_of_int ovl / real_of_int len_seq))"

definition overlap :: "int \<Rightarrow> int \<Rightarrow> int \<Rightarrow> int \<Rightarrow> int" where
  "overlap locA1 locA2 locB1 locB2 =
     (let cor1 = (if locA1 < locB1 then locA1 else locB1);
          cor2 = (if locA2 > locB2 then locA2 else locB2);
          total_region = cor2 - cor1;
          sum_len = (locA2 - locA1) + (locB2 - locB1)
      in sum_len - total_region)"

text \<open>The body of the inner loop of \<^verbatim>\<open>check_overlap\<close> for two rows of one coding
  sequence: the new value of \<^verbatim>\<open>delete_list\<close>.\<close>

definition compare_rows :: "real \<Rightarrow> pfd_row \<Rightarrow> pfd_row \<Rightarrow> pfd_row list \<Rightarrow> error + pfd_row list" where
  "compare_rows overlap_cutoff row1 row2 delete_list =
     (if no_overlap (env_from row1) (env_to row1) (env_from row2) (env_to row2) = False then
        (let overlapping_nucleotides =
               overlap (env_from row1) (env_to row1) (env_from row2) (env_to row2)
         in case overlap_perc overlapping_nucleotides (env_to row1 - env_from row1) of
              Inl e \<Rightarrow> Inl e
            | Inr overlap_perc_loc1 \<Rightarrow>
               (case overlap_perc overlapping_nucleotides (env_to row2 - env_from row2) of
                  Inl e \<Rightarrow> Inl e
                | Inr overlap_perc_loc2 \<Rightarrow>
                   (if overlap_perc_loc1 > overlap_cutoff \<or> overlap_perc_loc2 > overlap_cutoff then
                      (if score row1 > score row2 then Inr (delete_list @ [row2])
                       else if score row1 < score row2 then Inr (delete_list @ [row1])
                       else Inr delete_list)
                    else Inr delete_list)))
      else Inr delete_list)"

text \<open>The inner loop \<^verbatim>\<open>for row2 in pfd_matrix\<close>, over the rows still to visit, with
  the counter \<^verbatim>\<open>row2_count\<close> and the list \<^verbatim>\<open>delete_list\<close> as state.\<close>

fun row2_loop :: "real \<Rightarrow> nat \<Rightarrow> pfd_row \<Rightarrow> pfd_row list \<Rightarrow> nat \<Rightarrow> pfd_row list \<Rightarrow> error + pfd_row list" where
  "row2_loop overlap_cutoff row1_count row1 [] row2_count delete_list = Inr delete_list"
| "row2_loop overlap_cutoff row1_count row1 (row2 # rest) row2_count delete_list =
     (if row1_count \<noteq> row2_count + 1 \<and> cds_header row1 = cds_header row2 then
        (case compare_rows overlap_cutoff row1 row2 delete_list of
           Inl e \<Rightarrow> Inl e
         | Inr delete_list' \<Rightarrow>
             row2_loop overlap_cutoff row1_count row1 rest (row2_count + 1) delete_list')
      else row2_loop overlap_cutoff row1_count row1 rest (row2_count + 1) delete_list)"

text \<open>The outer loop \<^verbatim>\<open>for row1 in pfd_matrix\<close>.\<close>

fun row1_loop :: "real \<Rightarrow> pfd_row list \<Rightarrow> pfd_row list \<Rightarrow> nat \<Rightarrow> pfd_row list \<Rightarrow> error + pfd_row list" where
  "row1_loop overlap_cutoff pfd_matrix [] row1_count delete_list = Inr delete_list"
| "row1_loop overlap_cutoff pfd_matrix (row1 # rest) row1_count delete_list =
     (case row2_loop overlap_cutoff (row1_count + 1) row1 pfd_matrix 0 delete_list of
        Inl e \<Rightarrow> Inl e
      | Inr delete_list' \<Rightarrow>
          row1_loop overlap_cutoff pfd_matrix rest (row1_count + 1) delete_list')"

text \<open>\<^verbatim>\<open>check_overlap(pfd_matrix, overlap_cutoff)\<close>. \<^verbatim>\<open>pfd_matrix.remove(lst)\<close>
  deletes the first row equal to \<^verbatim>\<open>lst\<close> and its \<^verbatim>\<open>ValueError\<close> is passed over;
  \<^verbatim>\<open>sorted\<close> is stable.\<close>

definition check_overlap :: "pfd_row list \<Rightarrow> real \<Rightarrow> error + (pfd_row list \<times> string list)" where
  "check_overlap pfd_matrix overlap_cutoff =
     (case row1_loop overlap_cutoff pfd_matrix pfd_matrix 0 [] of
        Inl e \<Rightarrow> Inl e
      | Inr delete_list \<Rightarrow>
          (let pfd_matrix' = fold remove1 delete_list pfd_matrix;
               pfd_matrix'' = sort_key env_from pfd_matrix';
               domains = map domain_name pfd_matrix''
           in Inr (pfd_matrix'', domains)))"

text \<open>Two rows overlap significantly: the test of \<^verbatim>\<open>check_overlap\<close> that leads to the
  comparison of the scores.\<close>

definition significant_overlap :: "real \<Rightarrow> pfd_row \<Rightarrow> pfd_row \<Rightarrow> bool" where
  "significant_overlap overlap_cutoff row1 row2 =
     (no_overlap (env_from row1) (env_to row1) (env_from row2) (env_to row2) = False \<and>
      (real_of_int (overlap (env_from row1) (env_to row1) (env_from row2) (env_to row2))
          / real_of_int (env_to row1 - env_from row1) > overlap_cutoff \<or>
       real_of_int (overlap (env_from row1) (env_to row1) (env_from row2) (env_to row2))
          / real_of_int (env_to row2 - env_from row2) > overlap_cutoff))"

subsection \<open>Distance on domain instances (mode seqdist)\<close>

text \<open>A cluster of the global \<^verbatim>\<open>BGCs\<close>: a dictionary from a domain to the list of its
  instances in the cluster, kept as an association list (looked up with \<open>map_of\<close>). The
  global \<^verbatim>\<open>DMS\<close> maps a domain and a sorted pair of instances to a pair of sequence
  identity and alignment length.\<close>

type_synonym cluster = "(string \<times> string list) list"

type_synonym dms = "string \<rightharpoonup> ((string \<times> string) \<rightharpoonup> (real \<times> real))"

record globals =
  BGCs :: "string \<rightharpoonup> cluster"
  DMS :: dms
  output_folder :: string
  the_weights :: weights

definition py_keys :: "cluster \<Rightarrow> string list" where
  "py_keys c = remdups (map fst c)"

text \<open>\<^verbatim>\<open>try: seta = clusterA[domain]  except KeyError: seta = []\<close>.\<close>

definition instances :: "cluster \<Rightarrow> string \<Rightarrow> string list" where
  "instances c domain = (case map_of c domain of None \<Rightarrow> [] | Some l \<Rightarrow> l)"

text \<open>\<^verbatim>\<open>tuple(sorted([x, y]))\<close> on strings.\<close>

definition sorted_pair :: "string \<Rightarrow> string \<Rightarrow> string \<times> string" where
  "sorted_pair x y = (if x \<le> y then (x, y) else (y, x))"

text \<open>\<^verbatim>\<open>try: Distance = 1-DMS[domain][pair][0]  except KeyError: Distance = 1-0.1\<close>.\<close>

definition dms_distance :: "dms \<Rightarrow> string \<Rightarrow> string \<times> string \<Rightarrow> real" where
  "dms_distance d domain pair =
     (case d domain of
        None \<Rightarrow> 1 - 0.1
      | Some m \<Rightarrow> (case m pair of None \<Rightarrow> 1 - 0.1 | Some v \<Rightarrow> 1 - fst v))"

text \<open>\<^verbatim>\<open>np.zeros((N,N))\<close> and the assignment \<^verbatim>\<open>DistanceMatrix[i,j] = v\<close>, on a list of
  rows. Every index the source assigns to is below N (lemma \<open>fill_indices_in_range\<close>).\<close>

definition zeros :: "nat \<Rightarrow> real list list" where
  "zeros N = replicate N (replicate N 0)"

definition set_entry :: "real list list \<Rightarrow> nat \<Rightarrow> nat \<Rightarrow> real \<Rightarrow> real list list" where
  "set_entry M i j v = M[i := (M ! i)[j := v]]"

text \<open>The body of the loops that fill the matrix, and the loops
  \<^verbatim>\<open>for ja in xrange(0,len(seta)): for jb in xrange(ja,len(setb))\<close>.\<close>

definition fill_entry :: "dms \<Rightarrow> string \<Rightarrow> string list \<Rightarrow> string list \<Rightarrow> nat \<times> nat \<Rightarrow> real list list \<Rightarrow> real list list" where
  "fill_entry d domain seta setb jj DistanceMatrix =
     (let ja = fst jj; jb = snd jj;
          pair = sorted_pair (seta ! ja) (setb ! jb);
          Distance = dms_distance d domain pair
      in set_entry (set_entry DistanceMatrix ja jb Distance) jb ja Distance)"

definition fill_indices :: "nat \<Rightarrow> nat \<Rightarrow> (nat \<times> nat) list" where
  "fill_indices lena lenb = concat (map (\<lambda>ja. map (Pair ja) [ja ..< lenb]) [0 ..< lena])"

definition fill_matrix :: "dms \<Rightarrow> string \<Rightarrow> string list \<Rightarrow> string list \<Rightarrow> real list list" where
  "fill_matrix d domain seta setb =
     (let N = max (length seta) (length setb)
      in fold (fill_entry d domain seta setb) (fill_indices (length seta) (length setb)) (zeros N))"

text \<open>All orderings of a list.\<close>

fun insert_everywhere :: "'a \<Rightarrow> 'a list \<Rightarrow> 'a list list" where
  "insert_everywhere x [] = [[x]]"
| "insert_everywhere x (y # ys) = (x # y # ys) # map ((#) y) (insert_everywhere x ys)"

fun orderings :: "'a list \<Rightarrow> 'a list list" where
  "orderings [] = [[]]"
| "orderings (x # xs) = concat (map (insert_everywhere x) (orderings xs))"

text \<open>\<^verbatim>\<open>sum([DistanceMatrix[bi] for bi in BestIndexes])\<close>.\<close>

definition assignment_cost :: "real list list \<Rightarrow> (nat \<times> nat) list \<Rightarrow> real" where
  "assignment_cost M bis = (\<Sum>bi\<leftarrow>bis. M ! fst bi ! snd bi)"

text \<open>Modelled from the spec: the library \<^verbatim>\<open>munkres\<close> (class \<^verbatim>\<open>Munkres\<close>, method
  \<^verbatim>\<open>compute\<close>) is imported by the source and is not part of it. The spec gives its contract:
  given an N\<times>N cost matrix, return a one-to-one assignment of rows to columns that minimises
  the total assigned cost. The result is the list of (row, column) index pairs of an assignment
  of least cost.\<close>

definition Munkres_compute :: "real list list \<Rightarrow> (nat \<times> nat) list" where
  "Munkres_compute M =
     (let N = length M
      in arg_min_list (assignment_cost M) (map (zip [0 ..< N]) (orderings [0 ..< N])))"

text \<open>The body of the loop \<^verbatim>\<open>for domain in set(clusterA.keys() + clusterB.keys())\<close>, on
  the state \<^verbatim>\<open>(DDS, S)\<close>.\<close>

definition domain_step :: "dms \<Rightarrow> cluster \<Rightarrow> cluster \<Rightarrow> string \<Rightarrow> real \<times> real \<Rightarrow> real \<times> real" where
  "domain_step d clusterA clusterB domain st =
     (let DDS = fst st; S = snd st;
          seta = instances clusterA domain;
          setb = instances clusterB domain
      in if length seta = 1 \<and> length setb = 1 then
           (let pair = sorted_pair (seta ! 0) (setb ! 0);
                SumDistance = dms_distance d domain pair
            in (DDS + SumDistance, S + real (max (length seta) (length setb))))
         else if length seta + length setb = 1 then (DDS + 1, S + 1)
         else
           (let N = max (length seta) (length setb);
                DistanceMatrix = fill_matrix d domain seta setb;
                BestIndexes = Munkres_compute DistanceMatrix;
                SumDistance = assignment_cost DistanceMatrix BestIndexes
            in (DDS + SumDistance, S + real (max (length seta) (length setb)))))"

definition CompareTwoClusters :: "globals \<Rightarrow> string \<Rightarrow> string \<Rightarrow> error + real" where
  "CompareTwoClusters g A B =
     (case BGCs g A of
        None \<Rightarrow> Inl KeyError
      | Some clusterA \<Rightarrow>
         (case BGCs g B of
            None \<Rightarrow> Inl KeyError
          | Some clusterB \<Rightarrow>
             (let inter = int (length (py_inter (py_keys clusterA) (py_keys clusterB)));
                  lenA = int (length (py_keys clusterA));
                  lenB = int (length (py_keys clusterB))
              in case py_div (of_int inter) (of_int (lenA + lenB - inter)) of
                   Inl e \<Rightarrow> Inl e
                 | Inr Jaccard \<Rightarrow>
                    (let st = fold (domain_step (DMS g) clusterA clusterB)
                                (remdups (py_keys clusterA @ py_keys clusterB)) (0, 0)
                     in case py_div (fst st) (snd st) of
                          Inl e \<Rightarrow> Inl e
                        | Inr DDS \<Rightarrow>
                           (let DDS' = exp (- DDS);
                                Distance = 1 - 0.36 * Jaccard - 0.64 * DDS'
                            in Inr Distance)))))"

subsection \<open>The network matrix\<close>

text \<open>A Python float as \<^verbatim>\<open>generate_network\<close> and \<^verbatim>\<open>write_network_matrix\<close> see it: a
  real number, an infinity or not-a-number, with the comparison \<^verbatim>\<open>x > y\<close>.\<close>

datatype pyfloat = PFin real | PInf | NInf | NaN

fun py_gt :: "pyfloat \<Rightarrow> pyfloat \<Rightarrow> bool" where
  "py_gt (PFin a) (PFin b) = (a > b)"
| "py_gt (PFin a) NInf = True"
| "py_gt PInf (PFin b) = True"
| "py_gt PInf NInf = True"
| "py_gt x y = False"

text \<open>The lines
  \<^verbatim>\<open>if dist == 0: logscore = float("inf")  else: logscore = -math.log(dist, 2)\<close>;
  \<^verbatim>\<open>math.log\<close> raises \<^verbatim>\<open>ValueError\<close> on a negative number.\<close>

definition logscore_of :: "real \<Rightarrow> error + pyfloat" where
  "logscore_of dist_val =
     (if dist_val = 0 then Inr PInf
      else if dist_val < 0 then Inl ValueError
      else Inr (PFin (- log 2 dist_val)))"

text \<open>The log score as the specification words it: minus the binary logarithm of the
  similarity \<open>1 - distance\<close>, and the infinity when the similarity is 0.\<close>

definition spec_logscore :: "real \<Rightarrow> pyfloat" where
  "spec_logscore dist_val =
     (let similarity = 1 - dist_val
      in if similarity = 0 then PInf else PFin (- log 2 similarity))"

text \<open>The values of one network row before \<^verbatim>\<open>str\<close> turns the three numbers into
  text.\<close>

record network_entry =
  cluster1 :: string
  cluster2 :: string
  group1 :: string
  group2 :: string
  logscore :: pyfloat
  dist_val :: real
  sq_sim :: real

text \<open>The row \<^verbatim>\<open>[str(cluster1), str(cluster2), group_dct[cluster1], group_dct[cluster2],
  str(logscore), str(dist), str((1-dist)**2)]\<close>; \<^verbatim>\<open>str\<close> on numbers is a parameter.
  It is applied to the value only: the integer 0 that \<^verbatim>\<open>Distance_modified\<close> returns when
  it clamps (printed as \<^verbatim>\<open>0\<close>) is not told apart from the float 0.0, so no property below
  depends on the text of a number built here.\<close>

definition network_row :: "(pyfloat \<Rightarrow> string) \<Rightarrow> network_entry \<Rightarrow> string list" where
  "network_row str_float e =
     [cluster1 e, cluster2 e, group1 e, group2 e,
      str_float (logscore e), str_float (PFin (dist_val e)), str_float (PFin (sq_sim e))]"

text \<open>The distance of one pair, by \<^verbatim>\<open>dist_method\<close>. With another method the name
  \<^verbatim>\<open>dist\<close> is unbound at its first use.\<close>

definition pair_distance :: "globals \<Rightarrow> (string \<rightharpoonup> string) \<Rightarrow> string \<Rightarrow> string \<Rightarrow> string \<Rightarrow> error + real" where
  "pair_distance g fs dist_method c1 c2 =
     (let cluster_file1 = output_folder g @ ''/'' @ c1 @ ''.pfs'';
          cluster_file2 = output_folder g @ ''/'' @ c2 @ ''.pfs''
      in if dist_method = ''seqdist'' then CompareTwoClusters g c1 c2
         else if dist_method = ''domain_dist'' then
           (case get_domain_list fs cluster_file1 of
              Inl e \<Rightarrow> Inl e
            | Inr l1 \<Rightarrow>
               (case get_domain_list fs cluster_file2 of
                  Inl e \<Rightarrow> Inl e
                | Inr l2 \<Rightarrow> Distance_modified (the_weights g) l1 l2 0 4))
         else Inl UnboundLocalError)"

text \<open>The body of the inner loop of \<^verbatim>\<open>generate_network\<close> for one pair.\<close>

definition network_entry_of :: "globals \<Rightarrow> (string \<rightharpoonup> string) \<Rightarrow> string \<Rightarrow> (string \<rightharpoonup> string) \<Rightarrow> string \<Rightarrow> string \<Rightarrow> error + network_entry" where
  "network_entry_of g fs dist_method group_dct c1 c2 =
     (case pair_distance g fs dist_method c1 c2 of
        Inl e \<Rightarrow> Inl e
      | Inr d \<Rightarrow>
         (case logscore_of d of
            Inl e \<Rightarrow> Inl e
          | Inr l \<Rightarrow>
             (case group_dct c1 of
                None \<Rightarrow> Inl KeyError
              | Some g1 \<Rightarrow>
                 (case group_dct c2 of
                    None \<Rightarrow> Inl KeyError
                  | Some g2 \<Rightarrow>
                      Inr \<lparr>cluster1 = c1, cluster2 = c2, group1 = g1, group2 = g2,
                           logscore = l, dist_val = d, sq_sim = (1 - d)\<^sup>2\<rparr>))))"

text \<open>The loop \<^verbatim>\<open>for cluster2 in cluster_queue\<close> and the loop
  \<^verbatim>\<open>for cluster1 in bgc_list\<close>, with \<^verbatim>\<open>network_matrix\<close> as state.\<close>

fun cluster2_loop :: "globals \<Rightarrow> (string \<rightharpoonup> string) \<Rightarrow> string \<Rightarrow> (string \<rightharpoonup> string) \<Rightarrow> string \<Rightarrow> string list \<Rightarrow> network_entry list \<Rightarrow> error + network_entry list" where
  "cluster2_loop g fs dist_method group_dct c1 [] network_matrix = Inr network_matrix"
| "cluster2_loop g fs dist_method group_dct c1 (c2 # rest) network_matrix =
     (case network_entry_of g fs dist_method group_dct c1 c2 of
        Inl e \<Rightarrow> Inl e
      | Inr new_row \<Rightarrow>
          cluster2_loop g fs dist_method group_dct c1 rest (network_matrix @ [new_row]))"

fun cluster1_loop :: "globals \<Rightarrow> (string \<rightharpoonup> string) \<Rightarrow> string \<Rightarrow> (string \<rightharpoonup> string) \<Rightarrow> string list \<Rightarrow> string list \<Rightarrow> network_entry list \<Rightarrow> error + network_entry list" where
  "cluster1_loop g fs dist_method group_dct [] cluster_queue network_matrix = Inr network_matrix"
| "cluster1_loop g fs dist_method group_dct (c1 # rest) cluster_queue network_matrix =
     (if c1 \<notin> set cluster_queue then Inl ValueError
      else
        (let cluster_queue' = remove1 c1 cluster_queue
         in case cluster2_loop g fs dist_method group_dct c1 cluster_queue' network_matrix of
              Inl e \<Rightarrow> Inl e
            | Inr network_matrix' \<Rightarrow>
                cluster1_loop g fs dist_method group_dct rest cluster_queue' network_matrix'))"

text \<open>\<^verbatim>\<open>sorted(network_matrix, key=lambda network_matrix_entry: network_matrix_entry[4])\<close>:
  a stable sort on the fifth field of the rows, which is a string; strings compare
  character by character.\<close>

definition sort_network_matrix :: "string list list \<Rightarrow> string list list" where
  "sort_network_matrix network_matrix = sort_key (\<lambda>network_matrix_entry. network_matrix_entry ! 4) network_matrix"

text \<open>The name of the network file; \<^verbatim>\<open>bgc_list[0]\<close> raises on an empty list.\<close>

definition network_file_name :: "globals \<Rightarrow> string list \<Rightarrow> string \<Rightarrow> string \<Rightarrow> error + string" where
  "network_file_name g bgc_list networkfilename dist_method =
     (if networkfilename = [] then
        (case bgc_list of
           [] \<Rightarrow> Inl IndexError
         | b # _ \<Rightarrow>
            (let parts = py_split CHR ''.'' b
             in Inr (output_folder g @ ''/'' @ ''networkfile_'' @ dist_method @ ''_''
                      @ concat (take (length parts - 2) parts))))
      else Inr (output_folder g @ ''/'' @ ''networkfile_'' @ dist_method @ ''_'' @ networkfilename))"

text \<open>The rows of \<^verbatim>\<open>network_matrix\<close> as values, in the order the loops append them.\<close>

definition network_entries :: "globals \<Rightarrow> (string \<rightharpoonup> string) \<Rightarrow> string list \<Rightarrow> (string \<rightharpoonup> string) \<Rightarrow> string \<Rightarrow> error + network_entry list" where
  "network_entries g fs bgc_list group_dct dist_method =
     (let cluster_queue = bgc_list
      in cluster1_loop g fs dist_method group_dct bgc_list cluster_queue [])"

definition generate_network :: "globals \<Rightarrow> (string \<rightharpoonup> string) \<Rightarrow> (pyfloat \<Rightarrow> string) \<Rightarrow> string list \<Rightarrow> real \<Rightarrow> (string \<rightharpoonup> string) \<Rightarrow> string \<Rightarrow> string \<Rightarrow> error + (string list list \<times> string)" where
  "generate_network g fs str_float bgc_list dist_threshold group_dct networkfilename dist_method =
     (case network_file_name g bgc_list networkfilename dist_method of
        Inl e \<Rightarrow> Inl e
      | Inr networkfilename' \<Rightarrow>
         (case network_entries g fs bgc_list group_dct dist_method of
            Inl e \<Rightarrow> Inl e
          | Inr network_matrix \<Rightarrow>
              Inr (sort_network_matrix (map (network_row str_float) network_matrix),
                   networkfilename')))"

text \<open>The loop of \<^verbatim>\<open>write_network_matrix\<close>, with the text written so far as state;
  \<^verbatim>\<open>float\<close> on strings is a parameter. \<^verbatim>\<open>row[4]\<close> raises on a row of fewer than five
  fields.\<close>

fun write_rows :: "(string \<Rightarrow> error + pyfloat) \<Rightarrow> string list list \<Rightarrow> string \<Rightarrow> string \<Rightarrow> error + string" where
  "write_rows py_float [] cutoff networkfile = Inr networkfile"
| "write_rows py_float (row # rest) cutoff networkfile =
     (if length row \<le> 4 then Inl IndexError
      else
        (case py_float (row ! 4) of
           Inl e \<Rightarrow> Inl e
         | Inr x \<Rightarrow>
            (case py_float cutoff of
               Inl e \<Rightarrow> Inl e
             | Inr c \<Rightarrow>
                (if py_gt x c then
                   write_rows py_float rest cutoff (networkfile @ py_join [CHR 0x09] row @ [CHR 0x0A])
                 else write_rows py_float rest cutoff networkfile))))"

text \<open>\<^verbatim>\<open>write_network_matrix(matrix, cutoff, filename)\<close>: the file system after the
  call.\<close>

definition write_network_matrix :: "(string \<Rightarrow> error + pyfloat) \<Rightarrow> (string \<rightharpoonup> string) \<Rightarrow> string list list \<Rightarrow> string \<Rightarrow> string \<Rightarrow> error + (string \<rightharpoonup> string)" where
  "write_network_matrix py_float fs matrix cutoff filename =
     (case write_rows py_float matrix cutoff [] of
        Inl e \<Rightarrow> Inl e
      | Inr networkfile \<Rightarrow> Inr (fs(filename \<mapsto> networkfile)))"

text \<open>The lines a list of rows is written as.\<close>

definition network_lines :: "string list list \<Rightarrow> string" where
  "network_lines rows = concat (map (\<lambda>row. py_join [CHR 0x09] row @ [CHR 0x0A]) rows)"

text \<open>\<^verbatim>\<open>float(s)\<close> on the unsigned decimal numerals \<^verbatim>\<open>digits\<close> and
  \<^verbatim>\<open>digits.digits\<close> and on \<^verbatim>\<open>inf\<close>, for the examples below; other strings are not
  covered and rejected here.\<close>

definition digit_val :: "char \<Rightarrow> nat option" where
  "digit_val c =
     (if CHR ''0'' \<le> c \<and> c \<le> CHR ''9'' then Some (of_char c - of_char CHR ''0'') else None)"

fun digits_val :: "string \<Rightarrow> nat \<Rightarrow> nat option" where
  "digits_val [] acc = Some acc"
| "digits_val (c # cs) acc =
     (case digit_val c of None \<Rightarrow> None | Some v \<Rightarrow> digits_val cs (10 * acc + v))"

definition float_decimal :: "string \<Rightarrow> error + pyfloat" where
  "float_decimal s =
     (if s = ''inf'' then Inr PInf
      else
        (case py_split CHR ''.'' s of
           [ip] \<Rightarrow>
             (case digits_val ip 0 of
                Some a \<Rightarrow> (if ip = [] then Inl ValueError else Inr (PFin (real a)))
              | None \<Rightarrow> Inl ValueError)
         | [ip, fp] \<Rightarrow>
             (case (digits_val ip 0, digits_val fp 0) of
                (Some a, Some b) \<Rightarrow>
                  (if ip = [] \<and> fp = [] then Inl ValueError
                   else Inr (PFin (real a + real b / 10 ^ length fp)))
              | _ \<Rightarrow> Inl ValueError)
         | _ \<Rightarrow> Inl ValueError))"

subsection \<open>Predicates and example inputs used by the properties\<close>

text \<open>A network entry holds the distance of its pair, the log score computed from that
  distance and the squared similarity.\<close>

definition entry_ok :: "globals \<Rightarrow> (string \<rightharpoonup> string) \<Rightarrow> string \<Rightarrow> network_entry \<Rightarrow> bool" where
  "entry_ok g fs dist_method e =
     (pair_distance g fs dist_method (cluster1 e) (cluster2 e) = Inr (dist_val e) \<and>
      logscore_of (dist_val e) = Inr (logscore e) \<and>
      sq_sim e = (1 - dist_val e)\<^sup>2)"

text \<open>Two clusters with the same four domains, with the default weights; their .pfs files
  as \<open>write_pfs\<close> writes them.\<close>

definition g_ex :: globals where
  "g_ex = \<lparr>BGCs = Map.empty, DMS = Map.empty, output_folder = ''out'',
          the_weights = \<lparr>Jaccardw = 0.4, DDSw = 0.2, GKw = 0.4\<rparr>\<rparr>"

definition fs_ex :: "string \<rightharpoonup> string" where
  "fs_ex = [''out/c1.pfs'' \<mapsto> write_pfs [] [''PF1'', ''PF2'', ''PF3'', ''PF4''],
            ''out/c2.pfs'' \<mapsto> write_pfs [] [''PF1'', ''PF2'', ''PF3'', ''PF4'']]"

definition group_ex :: "string \<rightharpoonup> string" where
  "group_ex = [''c1'' \<mapsto> ''nrps'', ''c2'' \<mapsto> ''nrps'']"

text \<open>Rows as \<^verbatim>\<open>generate_network\<close> builds them for the distances
  \<open>1 - sqrt 0.9\<close>, \<open>1 - sqrt 0.6\<close> and \<open>1 - sqrt 0.2\<close> (squared similarities 0.9, 0.6
  and 0.2), and for the log scores 0.9, 0.6 and 0.2.\<close>

definition rows_by_sq_sim :: "string list list" where
  "rows_by_sq_sim =
     [[''c1'', ''c2'', ''nrps'', ''nrps'', ''4.2844277363'', ''0.0513167019495'', ''0.9''],
      [''c1'', ''c3'', ''nrps'', ''nrps'', ''2.14941926068'', ''0.225403330759'', ''0.6''],
      [''c2'', ''c3'', ''nrps'', ''nrps'', ''0.855205961074'', ''0.5527864045'', ''0.2'']]"

definition rows_by_logscore :: "string list list" where
  "rows_by_logscore =
     [[''c1'', ''c2'', ''nrps'', ''nrps'', ''0.9'', ''0.535886731268'', ''0.215401126213''],
      [''c1'', ''c3'', ''nrps'', ''nrps'', ''0.6'', ''0.659753955386'', ''0.115767370875''],
      [''c2'', ''c3'', ''nrps'', ''nrps'', ''0.2'', ''0.870550563296'', ''0.016757156663'']]"

text \<open>What one comparison of \<open>row1\<close> with \<open>row2\<close> appends to the delete list.\<close>

definition appended :: "real \<Rightarrow> pfd_row \<Rightarrow> pfd_row \<Rightarrow> pfd_row list" where
  "appended overlap_cutoff row1 row2 =
     (if significant_overlap overlap_cutoff row1 row2 then
        (if score row1 > score row2 then [row2]
         else if score row1 < score row2 then [row1]
         else [])
      else [])"

text \<open>The overlap of two hits as a fraction of the length of the first.\<close>

definition overlap_fraction :: "pfd_row \<Rightarrow> pfd_row \<Rightarrow> real" where
  "overlap_fraction row1 row2 =
     real_of_int (overlap (env_from row1) (env_to row1) (env_from row2) (env_to row2))
       / real_of_int (env_to row1 - env_from row1)"

text \<open>Hits on one coding sequence: two that overlap with scores 50 and 30, a third that
  overlaps neither, and two on the same interval with the same score.\<close>

definition hit :: "string \<Rightarrow> real \<Rightarrow> int \<Rightarrow> int \<Rightarrow> pfd_row" where
  "hit name sc a b =
     \<lparr>gbk = ''AB050629'', score = sc, gene_id = ''gene1'', env_from = a, env_to = b,
      strand = ''(+)'', pfam_id = ''PF00001'', domain_name = name,
      cds_header = ''loc:[0:960](+):gid:gene1:pid::loc_tag:ctg1_1''\<rparr>"

text \<open>A square matrix of size \<open>n\<close> with entries that are not negative and a diagonal
  of zeros.\<close>

definition good_matrix :: "nat \<Rightarrow> real list list \<Rightarrow> bool" where
  "good_matrix n M =
     (length M = n \<and> (\<forall>i<n. length (M ! i) = n) \<and>
      (\<forall>i<n. \<forall>j<n. 0 \<le> M ! i ! j) \<and> (\<forall>i<n. M ! i ! i = 0))"

text \<open>The matrix as the specification words it: the entry of every existing cross pair
  (an instance of \<open>seta\<close>, an instance of \<open>setb\<close>) is the dissimilarity from the DMS
  with its fallback, and only the other entries are zero.\<close>

definition spec_fill_matrix :: "dms \<Rightarrow> string \<Rightarrow> string list \<Rightarrow> string list \<Rightarrow> real list list" where
  "spec_fill_matrix d domain seta setb =
     (let N = max (length seta) (length setb)
      in map (\<lambda>ja. map (\<lambda>jb. if ja < length seta \<and> jb < length setb
                               then dms_distance d domain (sorted_pair (seta ! ja) (setb ! jb))
                               else 0) [0 ..< N]) [0 ..< N])"

text \<open>Clusters with three, one and no instance of a domain and an empty DMS; a cluster with
  two domains and a DMS with the identity 1 of every instance with itself.\<close>

definition g_multi :: globals where
  "g_multi =
     \<lparr>BGCs = [''A'' \<mapsto> [(''PF1'', [''a0'', ''a1'', ''a2''])],
              ''B'' \<mapsto> [(''PF1'', [''b0''])],
              ''E'' \<mapsto> []],
      DMS = Map.empty, output_folder = ''out'',
      the_weights = \<lparr>Jaccardw = 0.4, DDSw = 0.2, GKw = 0.4\<rparr>\<rparr>"

definition g_self :: globals where
  "g_self =
     \<lparr>BGCs = [''c1'' \<mapsto> [(''PF1'', [''PF1_a'']), (''PF2'', [''PF2_a'', ''PF2_b''])]],
      DMS = [''PF1'' \<mapsto> [(''PF1_a'', ''PF1_a'') \<mapsto> (1, 100)],
             ''PF2'' \<mapsto> [(''PF2_a'', ''PF2_a'') \<mapsto> (1, 100),
                         (''PF2_b'', ''PF2_b'') \<mapsto> (1, 100),
                         (''PF2_a'', ''PF2_b'') \<mapsto> (0.5, 100)]],
      output_folder = ''out'',
      the_weights = \<lparr>Jaccardw = 0.4, DDSw = 0.2, GKw = 0.4\<rparr>\<rparr>"

section \<open>Properties\<close>

lemma py_split_no_sep:
  "sep \<notin> set w \<Longrightarrow> py_split sep (w @ sep # rest) = w # py_split sep rest"
  by (induction w) auto

lemma readline_no_newline: "CHR 0x0A \<notin> set s \<Longrightarrow> readline s = s"
  by (induction s) auto

lemma window_pairs_in_range:
  assumes "i \<in> set [0 ..< nat (int (length A) - nbhood)]"
    and "j \<in> set [Suc i ..< nat (int i + nbhood)]"
  shows "i < length A \<and> j < length A"
proof -
  from assms have "int i < int (length A) - nbhood" "int j < int i + nbhood" "int i < int j"
    by auto
  then have "int i < int (length A)" "int j < int (length A)" by linarith+
  then show ?thesis by simp
qed

lemma fill_indices_in_range:
  "jj \<in> set (fill_indices lena lenb) \<Longrightarrow> fst jj < max lena lenb \<and> snd jj < max lena lenb"
  by (auto simp: fill_indices_def)

lemma write_pfs_concat: "write_pfs h domains = h @ concat (map (\<lambda>d. d @ '' '') domains)"
  unfolding write_pfs_def by (induction domains arbitrary: h) auto

lemma py_split_written:
  "\<forall>d \<in> set domains. CHR '' '' \<notin> set d \<Longrightarrow>
   py_split CHR '' '' (concat (map (\<lambda>d. d @ '' '') domains)) = domains @ [[]]"
  by (induction domains) (auto simp: py_split_no_sep)

subsection \<open>Round trip through a .pfs file\<close>

text \<open>
  Claim C9. A list of domain names (no name holds a space or a newline, since the names are
  pieces of a line split at spaces) written by \<open>write_pfs\<close> to a fresh file and read
  back by \<open>get_domain_list\<close> is the original list with one empty string appended: the
  separator after the last name is read as one more name. So every list read from a .pfs file
  holds the empty string as a domain.
\<close>

theorem write_pfs_get_domain_list:
  assumes "\<forall>d \<in> set domains. CHR '' '' \<notin> set d \<and> CHR 0x0A \<notin> set d"
  shows "get_domain_list (fs(filename \<mapsto> write_pfs [] domains)) filename = Inr (domains @ [[]])
         \<and> (\<exists>ds. get_domain_list (fs(filename \<mapsto> write_pfs [] domains)) filename = Inr ds
                  \<and> [] \<in> set ds)"
proof -
  have nl: "CHR 0x0A \<notin> set (concat (map (\<lambda>d. d @ '' '') domains))"
    using assms by auto
  have "get_domain_list (fs(filename \<mapsto> write_pfs [] domains)) filename = Inr (domains @ [[]])"
    using assms
    by (simp add: get_domain_list_def write_pfs_concat readline_no_newline [OF nl] py_split_written)
  then show ?thesis by simp
qed

theorem write_pfs_get_domain_list_witness:
  "get_domain_list (Map.empty(''out/c1.pfs'' \<mapsto> write_pfs [] [''PF1'', ''PF2''])) ''out/c1.pfs''
     = Inr [''PF1'', ''PF2'', []]"
  using write_pfs_get_domain_list [of "[''PF1'', ''PF2'']" Map.empty "''out/c1.pfs''"] by simp

subsection \<open>The repeat flag\<close>

text \<open>
  Claim C10. For all domain lists A and B and every neighbourhood width,
  \<open>Distance_modified\<close> returns the same result with \<open>repeat = 0\<close> and with
  \<open>repeat = 1\<close>: the list of repeats is empty, so the filter keeps every domain.
\<close>

theorem Distance_modified_repeat_irrelevant:
  "Distance_modified w A B 0 nbhood = Distance_modified w A B 1 nbhood"
  by (simp add: Distance_modified_def)

subsection \<open>The synteny index is between 0 and 1\<close>

lemma gamma_le_1:
  "(if Nr + Ns = 0 then 0 else \<bar>real Nr - real Ns\<bar> / (real Nr + real Ns)) \<le> (1::real)"
proof (cases "Nr + Ns = 0")
  case True
  then show ?thesis by simp
next
  case False
  then have "0 < real Nr + real Ns" by linarith
  moreover have "\<bar>real Nr - real Ns\<bar> \<le> real Nr + real Ns" by linarith
  ultimately have "\<bar>real Nr - real Ns\<bar> / (real Nr + real Ns) \<le> 1"
    by (simp add: divide_le_eq)
  with False show ?thesis by simp
qed

lemma gamma_ge_0:
  "0 \<le> (if Nr + Ns = 0 then 0 else \<bar>real Nr - real Ns\<bar> / (real Nr + real Ns))"
  by simp

lemma calculate_GK_cases:
  "calculate_GK A B n = 0 \<or>
   (\<exists>Nr Ns. calculate_GK A B n =
      (1 + (if Nr + Ns = 0 then 0 else \<bar>real Nr - real Ns\<bar> / (real Nr + real Ns))) / 2)"
proof (cases "length (py_inter A B) > 1")
  case True
  have "\<exists>Nr Ns. calculate_GK A B n =
      (1 + (if Nr + Ns = 0 then 0 else \<bar>real Nr - real Ns\<bar> / (real Nr + real Ns))) / 2"
    unfolding calculate_GK_def Let_def if_P [OF True] by (intro exI) (rule refl)
  then show ?thesis ..
next
  case False
  then show ?thesis by (simp add: calculate_GK_def)
qed

lemma calculate_GK_bounds: "0 \<le> calculate_GK A B n \<and> calculate_GK A B n \<le> 1"
proof -
  from calculate_GK_cases [of A B n] show ?thesis
  proof
    assume "calculate_GK A B n = 0"
    then show ?thesis by simp
  next
    assume "\<exists>Nr Ns. calculate_GK A B n =
      (1 + (if Nr + Ns = 0 then 0 else \<bar>real Nr - real Ns\<bar> / (real Nr + real Ns))) / 2"
    then obtain Nr Ns where eq: "calculate_GK A B n =
      (1 + (if Nr + Ns = 0 then 0 else \<bar>real Nr - real Ns\<bar> / (real Nr + real Ns))) / 2"
      by blast
    define gm where
      "gm = (if Nr + Ns = 0 then 0 else \<bar>real Nr - real Ns\<bar> / (real Nr + real Ns))"
    have "0 \<le> gm" "gm \<le> 1"
      unfolding gm_def using gamma_ge_0 [of Nr Ns] gamma_le_1 [of Nr Ns] by blast+
    moreover have "calculate_GK A B n = (1 + gm) / 2"
      unfolding gm_def by (rule eq)
    ultimately show ?thesis by simp
  qed
qed

lemma calculate_GK_le_1: "calculate_GK A B n \<le> 1"
  using calculate_GK_bounds by blast

subsection \<open>The log score of a network row\<close>

lemma network_entry_of_ok:
  "network_entry_of g fs dist_method group_dct c1 c2 = Inr e \<Longrightarrow> entry_ok g fs dist_method e"
  by (auto simp: network_entry_of_def entry_ok_def split: sum.splits option.splits)

lemma logscore_of_Inr:
  "logscore_of d = Inr l \<Longrightarrow>
   0 \<le> d \<and> l = (if d = 0 then PInf else PFin (- log 2 d)) \<and> (l = PInf \<longleftrightarrow> d = 0)"
  by (auto simp: logscore_of_def split: if_splits)

lemma cluster2_loop_ok:
  "cluster2_loop g fs dist_method group_dct c1 q nm = Inr nm' \<Longrightarrow>
   list_all (entry_ok g fs dist_method) nm \<Longrightarrow> list_all (entry_ok g fs dist_method) nm'"
proof (induction q arbitrary: nm)
  case Nil
  then show ?case by simp
next
  case (Cons c2 rest)
  from Cons.prems(1) obtain e where
    e: "network_entry_of g fs dist_method group_dct c1 c2 = Inr e" and
    r: "cluster2_loop g fs dist_method group_dct c1 rest (nm @ [e]) = Inr nm'"
    by (cases "network_entry_of g fs dist_method group_dct c1 c2") simp_all
  have "list_all (entry_ok g fs dist_method) (nm @ [e])"
    using Cons.prems(2) network_entry_of_ok [OF e] by simp
  then show ?case by (rule Cons.IH [OF r])
qed

lemma cluster1_loop_ok:
  "cluster1_loop g fs dist_method group_dct l q nm = Inr nm' \<Longrightarrow>
   list_all (entry_ok g fs dist_method) nm \<Longrightarrow> list_all (entry_ok g fs dist_method) nm'"
proof (induction l arbitrary: q nm)
  case Nil
  then show ?case by simp
next
  case (Cons c1 rest)
  from Cons.prems(1) have mem: "c1 \<in> set q"
    by (simp split: if_splits)
  with Cons.prems(1) obtain nm1 where
    a: "cluster2_loop g fs dist_method group_dct c1 (remove1 c1 q) nm = Inr nm1" and
    b: "cluster1_loop g fs dist_method group_dct rest (remove1 c1 q) nm1 = Inr nm'"
    by (cases "cluster2_loop g fs dist_method group_dct c1 (remove1 c1 q) nm")
       (simp_all add: Let_def)
  have "list_all (entry_ok g fs dist_method) nm1"
    using cluster2_loop_ok [OF a Cons.prems(2)] .
  then show ?case by (rule Cons.IH [OF b])
qed

lemma window_pairs_ex:
  "window_pairs [''PF1'', ''PF2'', ''PF3'', ''PF4'', []] 4 =
     [(''PF1'', ''PF2''), (''PF1'', ''PF3''), (''PF1'', ''PF4'')]"
  by (simp add: window_pairs_def upt_rec)

lemma calculate_GK_ex:
  "calculate_GK [''PF1'', ''PF2'', ''PF3'', ''PF4'', []] [''PF1'', ''PF2'', ''PF3'', ''PF4'', []] 4 = 1"
  by (simp add: calculate_GK_def window_pairs_ex py_inter_def)

lemma Distance_modified_ex:
  "Distance_modified (the_weights g_ex) [''PF1'', ''PF2'', ''PF3'', ''PF4'', []]
     [''PF1'', ''PF2'', ''PF3'', ''PF4'', []] 0 4 = Inr 0"
proof -
  have "max (calculate_GK [''PF1'', ''PF2'', ''PF3'', ''PF4'', []]
               [''PF1'', ''PF2'', ''PF3'', ''PF4'', []] 4)
            (calculate_GK (rev [''PF1'', ''PF2'', ''PF3'', ''PF4'', []])
               [''PF1'', ''PF2'', ''PF3'', ''PF4'', []] 4) = 1"
    using calculate_GK_le_1 [of "rev [''PF1'', ''PF2'', ''PF3'', ''PF4'', []]"
                                "[''PF1'', ''PF2'', ''PF3'', ''PF4'', []]" 4]
    by (simp only: calculate_GK_ex max_def split: if_splits) simp
  then show ?thesis
    by (simp add: Distance_modified_def Distance_of_lists_def g_ex_def py_inter_def py_div_def
             del: rev.simps)
qed

lemma network_entries_ex:
  "network_entries g_ex fs_ex [''c1'', ''c2''] group_ex ''domain_dist'' =
     Inr [\<lparr>cluster1 = ''c1'', cluster2 = ''c2'', group1 = ''nrps'', group2 = ''nrps'',
           logscore = PInf, dist_val = 0, sq_sim = 1\<rparr>]"
proof -
  have "get_domain_list fs_ex ''out/c1.pfs'' = Inr [''PF1'', ''PF2'', ''PF3'', ''PF4'', []]"
    "get_domain_list fs_ex ''out/c2.pfs'' = Inr [''PF1'', ''PF2'', ''PF3'', ''PF4'', []]"
    by (simp_all add: fs_ex_def get_domain_list_def write_pfs_def)
  then have "pair_distance g_ex fs_ex ''domain_dist'' ''c1'' ''c2'' = Inr 0"
    using Distance_modified_ex by (simp add: pair_distance_def g_ex_def)
  then show ?thesis
    by (simp add: network_entries_def network_entry_of_def logscore_of_def group_ex_def)
qed

text \<open>What the loops of \<open>generate_network\<close> compute for every pair: the log score is
  minus the binary logarithm of the distance, and the infinity exactly when the distance is 0.\<close>

lemma network_entries_logscore:
  assumes "network_entries g fs bgc_list group_dct dist_method = Inr entries"
  shows "\<forall>e \<in> set entries.
           pair_distance g fs dist_method (cluster1 e) (cluster2 e) = Inr (dist_val e) \<and>
           sq_sim e = (1 - dist_val e)\<^sup>2 \<and>
           logscore e = (if dist_val e = 0 then PInf else PFin (- log 2 (dist_val e))) \<and>
           (logscore e = PInf \<longleftrightarrow> dist_val e = 0)"
proof
  from assms have "list_all (entry_ok g fs dist_method) entries"
    unfolding network_entries_def Let_def by (rule cluster1_loop_ok) simp
  then have ok: "\<forall>e \<in> set entries. entry_ok g fs dist_method e"
    by (simp add: list_all_iff)
  fix e assume "e \<in> set entries"
  with ok have eo: "entry_ok g fs dist_method e" by blast
  then have "logscore_of (dist_val e) = Inr (logscore e)" by (simp add: entry_ok_def)
  from logscore_of_Inr [OF this] eo
  show "pair_distance g fs dist_method (cluster1 e) (cluster2 e) = Inr (dist_val e) \<and>
           sq_sim e = (1 - dist_val e)\<^sup>2 \<and>
           logscore e = (if dist_val e = 0 then PInf else PFin (- log 2 (dist_val e))) \<and>
           (logscore e = PInf \<longleftrightarrow> dist_val e = 0)"
    by (simp add: entry_ok_def)
qed

lemma log2_quarter: "log 2 (1/4) = (-2::real)"
proof -
  have "log 2 (1/4) = - log 2 (2 ^ 2 :: real)" by (simp add: log_divide)
  also have "log 2 (2 ^ 2 :: real) = 2" by (simp only: log_nat_power [of 2 2 2]) simp
  finally show ?thesis by simp
qed

lemma log2_three_quarters: "log 2 (3/4) \<noteq> (-2::real)"
proof -
  have "log 2 (1/4) < log 2 (3/4 :: real)" by simp
  then show ?thesis by (simp add: log2_quarter)
qed

text \<open>
  Claim C1 fails on the code: the log score is minus the binary logarithm of the distance,
  where the claim and the docstring of \<open>generate_network\<close> say of the similarity
  \<open>1 - distance\<close>. Two clusters with the same domains have distance 0 and similarity 1:
  the code gives the log score infinity, and minus the binary logarithm of the similarity
  is 0. At distance 1/4 the code gives 2, and minus the binary logarithm of the similarity 3/4
  is not 2.
\<close>

theorem generate_network_logscore_of_distance:
  "network_entries g_ex fs_ex [''c1'', ''c2''] group_ex ''domain_dist'' =
     Inr [\<lparr>cluster1 = ''c1'', cluster2 = ''c2'', group1 = ''nrps'', group2 = ''nrps'',
           logscore = PInf, dist_val = 0, sq_sim = 1\<rparr>]
   \<and> spec_logscore 0 = PFin 0 \<and> PInf \<noteq> spec_logscore 0
   \<and> logscore_of (1/4) = Inr (PFin 2)
   \<and> spec_logscore (1/4) = PFin (- log 2 (3/4))
   \<and> PFin (- log 2 (3/4)) \<noteq> PFin 2"
  using network_entries_ex log2_three_quarters
  by (simp add: spec_logscore_def logscore_of_def log2_quarter)

subsection \<open>Filtering the network by a cutoff\<close>

lemma write_rows_filter:
  assumes "\<forall>row \<in> set matrix. 4 < length row \<and> (\<exists>x. py_float (row ! 4) = Inr x)"
    and "py_float cutoff = Inr c"
  shows "write_rows py_float matrix cutoff out =
     Inr (out @ network_lines
            (filter (\<lambda>row. case py_float (row ! 4) of Inl e \<Rightarrow> False | Inr x \<Rightarrow> py_gt x c) matrix))"
  using assms
proof (induction matrix arbitrary: out)
  case Nil
  then show ?case by (simp add: network_lines_def)
next
  case (Cons row rest)
  from Cons.prems obtain x where x: "py_float (row ! 4) = Inr x" and len: "4 < length row"
    by auto
  have rest: "\<forall>row \<in> set rest. 4 < length row \<and> (\<exists>x. py_float (row ! 4) = Inr x)"
    using Cons.prems by simp
  show ?case
    using x len Cons.prems(2) Cons.IH [OF rest Cons.prems(2)]
    by (simp add: network_lines_def)
qed

lemma float_decimal_ex:
  "float_decimal ''0.5'' = Inr (PFin 0.5)"
  "float_decimal ''0.9'' = Inr (PFin 0.9)"
  "float_decimal ''0.6'' = Inr (PFin 0.6)"
  "float_decimal ''0.2'' = Inr (PFin 0.2)"
  "float_decimal ''4.2844277363'' = Inr (PFin 4.2844277363)"
  "float_decimal ''2.14941926068'' = Inr (PFin 2.14941926068)"
  "float_decimal ''0.855205961074'' = Inr (PFin 0.855205961074)"
  "float_decimal ''9.96578428466'' = Inr (PFin 9.96578428466)"
  "float_decimal ''13.2877123795'' = Inr (PFin 13.2877123795)"
  by (simp_all add: float_decimal_def digit_val_def)

text \<open>
  Claim C2, as the code has it. When every row has a fifth field that \<open>float\<close> reads and
  the cutoff is read as \<open>c\<close>, \<open>write_network_matrix\<close> writes exactly the rows whose
  fifth field, the log score (not the squared similarity, the seventh field), is strictly
  greater than \<open>c\<close>, in their order in the matrix. For rows with log scores 0.9, 0.6 and
  0.2 and cutoff 0.5 these are the first two rows.
\<close>

theorem write_network_matrix_filter:
  assumes "\<forall>row \<in> set matrix. 4 < length row \<and> (\<exists>x. py_float (row ! 4) = Inr x)"
    and "py_float cutoff = Inr c"
  shows "write_network_matrix py_float fs matrix cutoff filename =
     Inr (fs(filename \<mapsto> network_lines
            (filter (\<lambda>row. case py_float (row ! 4) of Inl e \<Rightarrow> False | Inr x \<Rightarrow> py_gt x c)
               matrix)))"
  using write_rows_filter [OF assms, of "[]"] by (simp add: write_network_matrix_def)

theorem write_network_matrix_filter_witness:
  "write_network_matrix float_decimal Map.empty rows_by_logscore ''0.5'' ''out/net_c0.5.network'' =
     Inr [''out/net_c0.5.network'' \<mapsto> network_lines (take 2 rows_by_logscore)]"
proof -
  have a: "\<forall>row \<in> set rows_by_logscore. 4 < length row \<and> (\<exists>x. float_decimal (row ! 4) = Inr x)"
    by (simp add: rows_by_logscore_def float_decimal_ex)
  show ?thesis
    using write_network_matrix_filter [OF a float_decimal_ex(1), of Map.empty
        "''out/net_c0.5.network''"]
    by (simp add: rows_by_logscore_def float_decimal_ex)
qed

text \<open>
  The claim as the specification words it fails on rows with squared similarities 0.9, 0.6
  and 0.2 and cutoff 0.5: all three rows are written, also the third, whose squared similarity
  0.2 is not greater than 0.5 (its log score 0.855... is).
\<close>

theorem write_network_matrix_filter_counterexample:
  "write_network_matrix float_decimal Map.empty rows_by_sq_sim ''0.5'' ''out/net_c0.5.network'' =
     Inr [''out/net_c0.5.network'' \<mapsto> network_lines rows_by_sq_sim]
   \<and> float_decimal (rows_by_sq_sim ! 2 ! 6) = Inr (PFin 0.2)
   \<and> \<not> py_gt (PFin 0.2) (PFin 0.5)"
proof -
  have a: "\<forall>row \<in> set rows_by_sq_sim. 4 < length row \<and> (\<exists>x. float_decimal (row ! 4) = Inr x)"
    by (simp add: rows_by_sq_sim_def float_decimal_ex)
  have "write_rows float_decimal rows_by_sq_sim ''0.5'' [] = Inr (network_lines rows_by_sq_sim)"
    using write_rows_filter [OF a float_decimal_ex(1), of "[]"]
    by (simp add: rows_by_sq_sim_def float_decimal_ex)
  then show ?thesis
    by (simp add: write_network_matrix_def float_decimal_ex rows_by_sq_sim_def)
qed

subsection \<open>The order of the network rows\<close>

text \<open>
  Claim C3 fails on the code: the rows are sorted on the text of the log score, compared
  character by character. Two rows with log scores 9.96... and 13.28..., in this order, come
  out with 13.28... first.
\<close>

theorem sort_network_matrix_not_numeric:
  "sort_network_matrix
     [[''c1'', ''c2'', ''nrps'', ''nrps'', ''9.96578428466'', ''0.001'', ''0.998001''],
      [''c1'', ''c3'', ''nrps'', ''nrps'', ''13.2877123795'', ''0.0001'', ''0.99980001'']] =
     [[''c1'', ''c3'', ''nrps'', ''nrps'', ''13.2877123795'', ''0.0001'', ''0.99980001''],
      [''c1'', ''c2'', ''nrps'', ''nrps'', ''9.96578428466'', ''0.001'', ''0.998001'']]
   \<and> float_decimal ''13.2877123795'' = Inr (PFin 13.2877123795)
   \<and> float_decimal ''9.96578428466'' = Inr (PFin 9.96578428466)
   \<and> py_gt (PFin 13.2877123795) (PFin 9.96578428466)"
  by (simp add: sort_network_matrix_def float_decimal_ex)

subsection \<open>The distance of a profile to itself\<close>

lemma py_inter_self: "py_inter X X = remdups X"
  by (simp add: py_inter_def)

lemma window_pairs_nonempty:
  assumes "2 \<le> n" "n < int (length X)"
  shows "window_pairs X n \<noteq> []"
proof -
  have a: "0 \<in> set [0 ..< nat (int (length X) - n)]" using assms by simp
  have b: "[Suc 0 ..< nat (int 0 + n)] \<noteq> []" using assms by simp
  show ?thesis
    unfolding window_pairs_def using a b
    by (auto simp del: upt_eq_Nil_conv set_upt of_nat_0) 
qed

lemma calculate_GK_self:
  assumes "1 < length (remdups X)" "2 \<le> n" "n < int (length X)"
  shows "calculate_GK X X n = 1"
proof -
  define P where "P = remdups (window_pairs X n)"
  define allPairs where "allPairs = remdups (P @ P)"
  have ne: "allPairs \<noteq> []"
    using window_pairs_nonempty [OF assms(2,3)] by (simp add: allPairs_def P_def)
  have sub: "set allPairs = set P" by (simp add: allPairs_def)
  have Ns: "filter (\<lambda>p. p \<in> set P \<and> p \<in> set P) allPairs = allPairs"
    using sub by (simp add: filter_id_conv)
  have Nr: "filter (\<lambda>p. \<not> (p \<in> set P \<and> p \<in> set P) \<and>
                 ((p \<in> set P \<and> prod.swap p \<in> set P) \<or> (prod.swap p \<in> set P \<and> p \<in> set P))) allPairs = []"
    using sub by (simp add: filter_empty_conv)
  have len: "0 < length allPairs" using ne by simp
  have "calculate_GK X X n =
      (1 + (if 0 + length allPairs = 0 then 0
            else \<bar>real 0 - real (length allPairs)\<bar> / (real 0 + real (length allPairs)))) / 2"
    unfolding calculate_GK_def Let_def py_inter_self if_P [OF assms(1)]
      P_def [symmetric] allPairs_def [symmetric] Ns Nr by simp
  also have "\<dots> = 1" using len by simp
  finally show ?thesis .
qed



lemma sum_list_pos_int:
  "xs \<noteq> [] \<Longrightarrow> \<forall>x \<in> set xs. 0 < f x \<Longrightarrow> (0::int) < sum_list (map f xs)"
proof (induction xs)
  case Nil
  then show ?case by simp
next
  case (Cons a xs)
  then show ?case by (cases xs) (auto intro: add_pos_pos)
qed

lemma count_list_pos: "p \<in> set X \<Longrightarrow> 0 < count_list X p"
  by (induction X) auto

lemma Distance_of_lists_subscores:
  "Distance_of_lists w A B nbhood =
     (if length A = 0 \<or> length B = 0 then Inr 1
      else
        (case Jaccard_index A B of
           Inl e \<Rightarrow> Inl e
         | Inr Jaccard \<Rightarrow>
            (case DDS_index A B of
               Inl e \<Rightarrow> Inl e
             | Inr DDS \<Rightarrow>
                (let Distance = 1 - Jaccardw w * Jaccard - DDSw w * DDS
                                  - GKw w * GK_index A B nbhood
                 in if Distance < 0 then Inr 0 else Inr Distance))))"
  unfolding Distance_of_lists_def Jaccard_index_def DDS_index_def GK_index_def Let_def
  by (simp split: sum.splits)

lemma Jaccard_index_self:
  assumes "X \<noteq> []"
  shows "Jaccard_index X X = Inr 1"
  using assms by (simp add: Jaccard_index_def py_inter_self py_div_def)

lemma DDS_index_self:
  assumes "X \<noteq> []"
  shows "DDS_index X X = Inr 1"
proof -
  have "0 < (\<Sum>p\<leftarrow>remdups (X @ X). int (count_list X p))"
    using assms by (intro sum_list_pos_int) (auto simp: count_list_pos)
  then have S: "(\<Sum>p\<leftarrow>remdups (X @ X). int (count_list X p)) \<noteq> 0" by simp
  show ?thesis
    unfolding DDS_index_def Let_def using S by (simp add: py_div_def)
qed

lemma GK_index_self:
  assumes "1 < length (remdups X)" "2 \<le> n" "n < int (length X)"
  shows "GK_index X X n = 1"
  unfolding GK_index_def Let_def
  using calculate_GK_self [OF assms] calculate_GK_le_1 [of "rev X" X n] by simp

lemma Distance_modified_self_default:
  assumes "1 < length (remdups X)" "2 \<le> n" "n < int (length X)"
  shows "Distance_modified \<lparr>Jaccardw = 0.4, DDSw = 0.2, GKw = 0.4\<rparr> X X 0 n = Inr 0"
proof -
  have ne: "X \<noteq> []" using assms(1) by (cases X) simp_all
  show ?thesis
    by (simp add: Distance_modified_def Distance_of_lists_subscores Jaccard_index_self [OF ne]
          DDS_index_self [OF ne] GK_index_self [OF assms] ne)
qed

lemma Distance_modified_five_domains:
  "Distance_modified \<lparr>Jaccardw = 0.1, DDSw = 0.1, GKw = 0.1\<rparr>
     [''PF1'', ''PF2'', ''PF3'', ''PF4'', ''PF5'']
     [''PF1'', ''PF2'', ''PF3'', ''PF4'', ''PF5''] 0 4 = Inr 0.7"
proof -
  have a: "1 < length (remdups [''PF1'', ''PF2'', ''PF3'', ''PF4'', ''PF5''])" by simp
  have ne: "[''PF1'', ''PF2'', ''PF3'', ''PF4'', ''PF5''] \<noteq> []" by simp
  have g: "GK_index [''PF1'', ''PF2'', ''PF3'', ''PF4'', ''PF5'']
             [''PF1'', ''PF2'', ''PF3'', ''PF4'', ''PF5''] 4 = 1"
    by (rule GK_index_self [OF a]) simp_all
  show ?thesis
    by (simp add: Distance_modified_def Distance_of_lists_subscores Jaccard_index_self [OF ne]
          DDS_index_self [OF ne] g)
qed

lemma set_entry_length: "length (set_entry M i j v) = length M"
  by (simp add: set_entry_def)

lemma set_entry_row_length:
  "a < length M \<Longrightarrow> length (set_entry M i j v ! a) = length (M ! a)"
  by (cases "i < length M") (auto simp: set_entry_def nth_list_update)

lemma set_entry_nth:
  "a < length M \<Longrightarrow> j < length (M ! i) \<Longrightarrow>
   set_entry M i j v ! a ! b = (if a = i \<and> b = j then v else M ! a ! b)"
  by (cases "i < length M") (auto simp: set_entry_def nth_list_update)

lemma good_zeros: "good_matrix n (zeros n)"
  by (simp add: good_matrix_def zeros_def)

lemma good_set_entry:
  assumes "good_matrix n M" "i < n" "j < n" "0 \<le> v" "i = j \<longrightarrow> v = 0"
  shows "good_matrix n (set_entry M i j v)"
proof -
  have len: "length M = n" and rows: "\<And>a. a < n \<Longrightarrow> length (M ! a) = n"
    and nn: "\<And>a b. a < n \<Longrightarrow> b < n \<Longrightarrow> 0 \<le> M ! a ! b"
    and dg: "\<And>a. a < n \<Longrightarrow> M ! a ! a = 0"
    using assms(1) by (simp_all add: good_matrix_def)
  have jr: "j < length (M ! i)" using rows [OF assms(2)] assms(3) by simp
  have nth: "\<And>a b. a < n \<Longrightarrow>
      set_entry M i j v ! a ! b = (if a = i \<and> b = j then v else M ! a ! b)"
    using set_entry_nth [OF _ jr] len by simp
  have "length (set_entry M i j v) = n" using len by (simp add: set_entry_length)
  moreover have "\<forall>a<n. length (set_entry M i j v ! a) = n"
    using rows len by (simp add: set_entry_row_length)
  moreover have "\<forall>a<n. \<forall>b<n. 0 \<le> set_entry M i j v ! a ! b"
    using nth nn assms(4) by simp
  moreover have "\<forall>a<n. set_entry M i j v ! a ! a = 0"
    using nth dg assms(5) by simp
  ultimately show ?thesis unfolding good_matrix_def by blast
qed

lemma fill_indices_range: "jj \<in> set (fill_indices n n) \<Longrightarrow> fst jj < n \<and> snd jj < n"
  by (auto simp: fill_indices_def)

lemma good_fold:
  assumes "\<And>jj M. jj \<in> set js \<Longrightarrow> good_matrix n M \<Longrightarrow> good_matrix n (f jj M)"
    and "good_matrix n M0"
  shows "good_matrix n (fold f js M0)"
  using assms by (induction js arbitrary: M0) simp_all

lemma insert_everywhere_set:
  "ys \<in> set (insert_everywhere x xs) \<Longrightarrow> set ys = insert x (set xs) \<and> length ys = Suc (length xs)"
  by (induction xs arbitrary: ys) auto

lemma insert_everywhere_head: "x # xs \<in> set (insert_everywhere x xs)"
  by (cases xs) simp_all

lemma orderings_set:
  "p \<in> set (orderings xs) \<Longrightarrow> set p = set xs \<and> length p = length xs"
proof (induction xs arbitrary: p)
  case Nil
  then show ?case by simp
next
  case (Cons x xs)
  then obtain q where q: "q \<in> set (orderings xs)" and p: "p \<in> set (insert_everywhere x q)"
    by auto
  from Cons.IH [OF q] insert_everywhere_set [OF p] show ?case by simp
qed

lemma orderings_self: "xs \<in> set (orderings xs)"
proof (induction xs)
  case Nil
  then show ?case by simp
next
  case (Cons x xs)
  then show ?case using insert_everywhere_head [of x xs] by auto
qed

lemma assignment_cost_nonneg:
  assumes "good_matrix n M" "set p = {0 ..< n}" "length p = n"
  shows "0 \<le> assignment_cost M (zip [0 ..< n] p)"
  unfolding assignment_cost_def
proof (rule sum_list_nonneg)
  fix x assume "x \<in> set (map (\<lambda>bi. M ! fst bi ! snd bi) (zip [0 ..< n] p))"
  then obtain bi where bi: "bi \<in> set (zip [0 ..< n] p)" and x: "x = M ! fst bi ! snd bi"
    by auto
  from bi have "fst bi \<in> set [0 ..< n]" "snd bi \<in> set p"
    by (metis prod.collapse set_zip_leftD, metis prod.collapse set_zip_rightD)
  then have "fst bi < n" "snd bi < n" using assms(2) by auto
  then show "0 \<le> x" using assms(1) x by (simp add: good_matrix_def)
qed

lemma assignment_cost_identity:
  assumes "good_matrix n M"
  shows "assignment_cost M (zip [0 ..< n] [0 ..< n]) = 0"
proof -
  have "assignment_cost M (zip [0 ..< n] [0 ..< n]) = (\<Sum>i\<leftarrow>[0 ..< n]. M ! i ! i)"
    by (simp add: assignment_cost_def zip_same_conv_map comp_def)
  also have "\<dots> = (\<Sum>i\<leftarrow>[0 ..< n]. 0)"
    using assms by (intro arg_cong [where f = sum_list] map_cong) (auto simp: good_matrix_def)
  finally show ?thesis by simp
qed

lemma Munkres_cost_good:
  assumes "good_matrix n M"
  shows "assignment_cost M (Munkres_compute M) = 0"
proof -
  have len: "length M = n" using assms by (simp add: good_matrix_def)
  define cands where "cands = map (zip [0 ..< n]) (orderings [0 ..< n])"
  have ne: "cands \<noteq> []" using orderings_self [of "[0 ..< n]"] by (auto simp: cands_def)
  have eq: "assignment_cost M (Munkres_compute M) = Min (assignment_cost M ` set cands)"
    unfolding Munkres_compute_def Let_def len cands_def [symmetric]
    by (rule f_arg_min_list_f [OF ne])
  have "Min (assignment_cost M ` set cands) = 0"
  proof (rule Min_eqI)
    show "finite (assignment_cost M ` set cands)" by simp
  next
    fix y assume "y \<in> assignment_cost M ` set cands"
    then obtain p where p: "p \<in> set (orderings [0 ..< n])" and y: "y = assignment_cost M (zip [0 ..< n] p)"
      by (auto simp: cands_def)
    from orderings_set [OF p] have "set p = {0 ..< n}" "length p = n" by simp_all
    from assignment_cost_nonneg [OF assms this] y show "0 \<le> y" by simp
  next
    have "zip [0 ..< n] [0 ..< n] \<in> set cands"
      using orderings_self [of "[0 ..< n]"] by (auto simp: cands_def)
    then have "assignment_cost M (zip [0 ..< n] [0 ..< n]) \<in> assignment_cost M ` set cands"
      by (rule imageI)
    then show "0 \<in> assignment_cost M ` set cands"
      by (simp only: assignment_cost_identity [OF assms])
  qed
  with eq show ?thesis by simp
qed


lemma dms_distance_nonneg:
  assumes "\<forall>fam m p v. d fam = Some m \<longrightarrow> m p = Some v \<longrightarrow> fst v \<le> 1"
  shows "0 \<le> dms_distance d fam p"
proof (cases "d fam")
  case None
  then show ?thesis by (simp add: dms_distance_def)
next
  case (Some m)
  show ?thesis
  proof (cases "m p")
    case None
    with Some show ?thesis by (simp add: dms_distance_def)
  next
    case (Some v)
    with \<open>d fam = Some m\<close> assms have "fst v \<le> 1" by blast
    with Some \<open>d fam = Some m\<close> show ?thesis by (simp add: dms_distance_def)
  qed
qed

lemma sorted_pair_same: "sorted_pair s s = (s, s)"
  by (simp add: sorted_pair_def)

lemma fill_matrix_self_good:
  assumes rng: "\<forall>fam m p v. d fam = Some m \<longrightarrow> m p = Some v \<longrightarrow> fst v \<le> 1"
    and self: "\<forall>s \<in> set l. dms_distance d fam (s, s) = 0"
  shows "good_matrix (length l) (fill_matrix d fam l l)"
  unfolding fill_matrix_def Let_def max.idem
proof (rule good_fold)
  show "good_matrix (length l) (zeros (length l))" by (rule good_zeros)
next
  fix jj M
  assume jj: "jj \<in> set (fill_indices (length l) (length l))" and M: "good_matrix (length l) M"
  define ja where "ja = fst jj"
  define jb where "jb = snd jj"
  define v where "v = dms_distance d fam (sorted_pair (l ! ja) (l ! jb))"
  have r: "ja < length l" "jb < length l"
    using fill_indices_range [OF jj] by (simp_all add: ja_def jb_def)
  have v0: "0 \<le> v" unfolding v_def by (rule dms_distance_nonneg [OF rng])
  have vd: "ja = jb \<longrightarrow> v = 0"
    using self r by (auto simp: v_def sorted_pair_same)
  have vd': "jb = ja \<longrightarrow> v = 0" using vd by blast
  have "good_matrix (length l) (set_entry (set_entry M ja jb v) jb ja v)"
    by (rule good_set_entry [OF good_set_entry [OF M r v0 vd] r(2) r(1) v0 vd'])
  then show "good_matrix (length l) (fill_entry d fam l l jj M)"
    by (simp add: fill_entry_def Let_def ja_def jb_def v_def)
qed

lemma domain_step_self:
  assumes rng: "\<forall>fam m p v. d fam = Some m \<longrightarrow> m p = Some v \<longrightarrow> fst v \<le> 1"
    and self: "\<forall>s \<in> set (instances c fam). dms_distance d fam (s, s) = 0"
  shows "domain_step d c c fam (DDS, S) = (DDS, S + real (length (instances c fam)))"
proof (cases "length (instances c fam) = 1")
  case True
  then obtain s where s: "instances c fam = [s]"
    by (cases "instances c fam") simp_all
  with self have "dms_distance d fam (s, s) = 0" by simp
  with s show ?thesis by (simp add: domain_step_def sorted_pair_same)
next
  case False
  have "assignment_cost (fill_matrix d fam (instances c fam) (instances c fam))
          (Munkres_compute (fill_matrix d fam (instances c fam) (instances c fam))) = 0"
    by (rule Munkres_cost_good [OF fill_matrix_self_good [OF rng self]])
  with False show ?thesis by (simp add: domain_step_def Let_def)
qed

lemma fold_domain_step_self:
  assumes rng: "\<forall>fam m p v. d fam = Some m \<longrightarrow> m p = Some v \<longrightarrow> fst v \<le> 1"
    and self: "\<forall>fam \<in> set ds. \<forall>s \<in> set (instances c fam). dms_distance d fam (s, s) = 0"
  shows "fold (domain_step d c c) ds (DDS, S) =
           (DDS, S + (\<Sum>fam\<leftarrow>ds. real (length (instances c fam))))"
  using self
proof (induction ds arbitrary: S)
  case Nil
  then show ?case by simp
next
  case (Cons fam ds)
  have a: "\<forall>s \<in> set (instances c fam). dms_distance d fam (s, s) = 0"
    using Cons.prems by simp
  have b: "\<forall>fam \<in> set ds. \<forall>s \<in> set (instances c fam). dms_distance d fam (s, s) = 0"
    using Cons.prems by simp
  show ?case
    by (simp add: domain_step_self [OF rng a] Cons.IH [OF b] add.assoc)
qed

lemma sum_list_pos_real:
  "xs \<noteq> [] \<Longrightarrow> \<forall>x \<in> set xs. 0 < f x \<Longrightarrow> (0::real) < sum_list (map f xs)"
proof (induction xs)
  case Nil
  then show ?case by simp
next
  case (Cons a xs)
  then show ?case by (cases xs) (auto intro: add_pos_pos)
qed

lemma CompareTwoClusters_self:
  assumes A: "BGCs g A = Some c" and ne: "c \<noteq> []"
    and inst: "\<forall>fam \<in> set (py_keys c). instances c fam \<noteq> []"
    and self: "\<forall>fam \<in> set (py_keys c). \<forall>s \<in> set (instances c fam).
                 \<exists>m al. DMS g fam = Some m \<and> m (s, s) = Some (1, al)"
    and rng: "\<forall>fam m p v. DMS g fam = Some m \<longrightarrow> m p = Some v \<longrightarrow> fst v \<le> 1"
  shows "CompareTwoClusters g A A = Inr 0"
proof -
  define keys where "keys = py_keys c"
  define ds where "ds = remdups (keys @ keys)"
  have kne: "keys \<noteq> []" using ne by (simp add: keys_def py_keys_def)
  have dset: "set ds = set keys" by (simp add: ds_def)
  have dne: "ds \<noteq> []" using kne dset by (cases ds) auto
  have self': "\<forall>fam \<in> set ds. \<forall>s \<in> set (instances c fam). dms_distance (DMS g) fam (s, s) = 0"
  proof (intro ballI)
    fix fam s assume "fam \<in> set ds" "s \<in> set (instances c fam)"
    with self dset obtain m al where "DMS g fam = Some m" "m (s, s) = Some (1, al)"
      unfolding keys_def by blast
    then show "dms_distance (DMS g) fam (s, s) = 0" by (simp add: dms_distance_def)
  qed
  have fold_eq: "fold (domain_step (DMS g) c c) ds (0, 0) =
          (0, 0 + (\<Sum>fam\<leftarrow>ds. real (length (instances c fam))))"
    by (rule fold_domain_step_self [OF rng self'])
  have "0 < (\<Sum>fam\<leftarrow>ds. real (length (instances c fam)))"
    using dne inst dset by (intro sum_list_pos_real) (auto simp: keys_def)
  then have S: "(\<Sum>fam\<leftarrow>ds. real (length (instances c fam))) \<noteq> 0" by simp
  have k: "int (length keys) \<noteq> 0" using kne by simp
  have J: "py_div (of_int (int (length (py_inter keys keys))))
             (of_int (int (length keys) + int (length keys) - int (length (py_inter keys keys))))
           = Inr 1"
  proof -
    have "py_inter keys keys = keys"
      by (simp add: py_inter_self keys_def py_keys_def distinct_remdups_id)
    then show ?thesis using k by (simp add: py_div_def)
  qed
  show ?thesis
    unfolding CompareTwoClusters_def Let_def A option.case keys_def [symmetric] J sum.case
      ds_def [symmetric] fold_eq
    using S by (simp add: py_div_def)
qed

text \<open>
  Claim C4, as the code has it. In mode seqdist the distance of a cluster to itself is 0 when
  the cluster has a domain, every domain has an instance, the DMS holds the identity 1 for
  every instance with itself and no identity above 1. In mode domain\_dist, for a domain list
  with two different domains that is longer than the neighbourhood width, the width being at
  least 2, the Jaccard index, the duplication index and the synteny index of the list with
  itself are each 1, and with the default weights 0.4, 0.2, 0.4 the distance of the list to
  itself is 0 (in the program too: the weighted sum rounds to a negative number, which is
  clamped to 0).
\<close>

theorem self_distance:
  assumes "1 < length (remdups X)" "2 \<le> nbhood" "nbhood < int (length X)"
    and "BGCs g A = Some c" "c \<noteq> []"
    and "\<forall>fam \<in> set (py_keys c). instances c fam \<noteq> []"
    and "\<forall>fam \<in> set (py_keys c). \<forall>s \<in> set (instances c fam).
                 \<exists>m al. DMS g fam = Some m \<and> m (s, s) = Some (1, al)"
    and "\<forall>fam m p v. DMS g fam = Some m \<longrightarrow> m p = Some v \<longrightarrow> fst v \<le> 1"
  shows "Jaccard_index X X = Inr 1 \<and> DDS_index X X = Inr 1 \<and> GK_index X X nbhood = 1
         \<and> Distance_modified \<lparr>Jaccardw = 0.4, DDSw = 0.2, GKw = 0.4\<rparr> X X 0 nbhood = Inr 0
         \<and> CompareTwoClusters g A A = Inr 0"
proof -
  have ne: "X \<noteq> []" using assms(1) by (cases X) simp_all
  show ?thesis
    using Jaccard_index_self [OF ne] DDS_index_self [OF ne] GK_index_self [OF assms(1-3)]
      Distance_modified_self_default [OF assms(1-3)] CompareTwoClusters_self [OF assms(4-8)]
    by simp
qed

theorem self_distance_witness:
  "Jaccard_index [''PF1'', ''PF2'', ''PF3'', ''PF4'', ''PF5'']
      [''PF1'', ''PF2'', ''PF3'', ''PF4'', ''PF5''] = Inr 1
   \<and> DDS_index [''PF1'', ''PF2'', ''PF3'', ''PF4'', ''PF5'']
      [''PF1'', ''PF2'', ''PF3'', ''PF4'', ''PF5''] = Inr 1
   \<and> GK_index [''PF1'', ''PF2'', ''PF3'', ''PF4'', ''PF5'']
      [''PF1'', ''PF2'', ''PF3'', ''PF4'', ''PF5''] 4 = 1
   \<and> Distance_modified \<lparr>Jaccardw = 0.4, DDSw = 0.2, GKw = 0.4\<rparr>
      [''PF1'', ''PF2'', ''PF3'', ''PF4'', ''PF5'']
      [''PF1'', ''PF2'', ''PF3'', ''PF4'', ''PF5''] 0 4 = Inr 0
   \<and> CompareTwoClusters g_self ''c1'' ''c1'' = Inr 0"
proof -
  have k: "py_keys [(''PF1'', [''PF1_a'']), (''PF2'', [''PF2_a'', ''PF2_b''])] = [''PF1'', ''PF2'']"
    by (simp add: py_keys_def)
  have a: "\<forall>fam \<in> set (py_keys [(''PF1'', [''PF1_a'']), (''PF2'', [''PF2_a'', ''PF2_b''])]).
             instances [(''PF1'', [''PF1_a'']), (''PF2'', [''PF2_a'', ''PF2_b''])] fam \<noteq> []"
    unfolding k by (simp add: instances_def)
  have b: "\<forall>fam \<in> set (py_keys [(''PF1'', [''PF1_a'']), (''PF2'', [''PF2_a'', ''PF2_b''])]).
             \<forall>s \<in> set (instances [(''PF1'', [''PF1_a'']), (''PF2'', [''PF2_a'', ''PF2_b''])] fam).
                 \<exists>m al. DMS g_self fam = Some m \<and> m (s, s) = Some (1, al)"
    unfolding k by (simp add: instances_def g_self_def)
  have c: "\<forall>fam m p v. DMS g_self fam = Some m \<longrightarrow> m p = Some v \<longrightarrow> fst v \<le> 1"
    by (auto simp: g_self_def split: if_splits)
  have d: "BGCs g_self ''c1'' = Some [(''PF1'', [''PF1_a'']), (''PF2'', [''PF2_a'', ''PF2_b''])]"
    by (simp add: g_self_def)
  show ?thesis
    by (rule self_distance [OF _ _ _ d _ a b c]) simp_all
qed

text \<open>
  The claim as the specification words it fails in mode domain\_dist. On the list of two
  domains PF1, PF2 with the default weights and width 4 the synteny index of the list with
  itself is 1/2 and the distance of the list to itself is 0.2. On a list of five different
  domains with the weights 0.1, 0.1, 0.1 the three indices are 1 and the distance of the list
  to itself is 0.7.
\<close>

theorem self_distance_zero_counterexample:
  "Distance_modified \<lparr>Jaccardw = 0.4, DDSw = 0.2, GKw = 0.4\<rparr>
     [''PF1'', ''PF2''] [''PF1'', ''PF2''] 0 4 = Inr 0.2
   \<and> (0.2::real) \<noteq> 0
   \<and> GK_index [''PF1'', ''PF2''] [''PF1'', ''PF2''] 4 = 1/2
   \<and> Distance_modified \<lparr>Jaccardw = 0.1, DDSw = 0.1, GKw = 0.1\<rparr>
        [''PF1'', ''PF2'', ''PF3'', ''PF4'', ''PF5'']
        [''PF1'', ''PF2'', ''PF3'', ''PF4'', ''PF5''] 0 4 = Inr 0.7
   \<and> (0.7::real) \<noteq> 0"
proof -
  have a: "Distance_modified \<lparr>Jaccardw = 0.4, DDSw = 0.2, GKw = 0.4\<rparr>
             [''PF1'', ''PF2''] [''PF1'', ''PF2''] 0 4 = Inr 0.2"
    by (simp add: Distance_modified_def Distance_of_lists_def py_inter_def py_div_def
          calculate_GK_def window_pairs_def)
  have b: "GK_index [''PF1'', ''PF2''] [''PF1'', ''PF2''] 4 = 1/2"
    by (simp add: GK_index_def calculate_GK_def window_pairs_def py_inter_def)
  have c: "(0.2::real) \<noteq> 0" "(0.7::real) \<noteq> 0" by simp_all
  from a c(1) b Distance_modified_five_domains c(2) show ?thesis
    by (intro conjI)
qed

subsection \<open>Clusters with several instances of a domain, and empty clusters\<close>

lemma fill_matrix_3_1:
  "fill_matrix Map.empty ''PF1'' [''a0'', ''a1'', ''a2''] [''b0''] = [[0.9,0,0],[0,0,0],[0,0,0]]"
  by (simp add: fill_matrix_def fill_indices_def fill_entry_def zeros_def set_entry_def
        dms_distance_def sorted_pair_def upt_rec numeral_3_eq_3 Let_def)

lemma fill_matrix_1_3:
  "fill_matrix Map.empty ''PF1'' [''b0''] [''a0'', ''a1'', ''a2'']
     = [[0.9,0.9,0.9],[0.9,0,0],[0.9,0,0]]"
  by (simp add: fill_matrix_def fill_indices_def fill_entry_def zeros_def set_entry_def
        dms_distance_def sorted_pair_def upt_rec numeral_3_eq_3 Let_def)

lemma Munkres_3_1:
  "assignment_cost [[0.9,0,0],[0,0,0],[0,0,0]] (Munkres_compute [[0.9,0,0],[0,0,0],[0,0,0]]) = 0"
  by (simp add: Munkres_compute_def assignment_cost_def upt_rec numeral_3_eq_3)

lemma Munkres_1_3:
  "assignment_cost [[0.9,0.9,0.9],[0.9,0,0],[0.9,0,0]]
     (Munkres_compute [[0.9,0.9,0.9],[0.9,0,0],[0.9,0,0]]) = 0.9"
  by (simp add: Munkres_compute_def assignment_cost_def upt_rec numeral_3_eq_3)

lemma CompareTwoClusters_A_B: "CompareTwoClusters g_multi ''A'' ''B'' = Inr 0"
  by (simp add: CompareTwoClusters_def g_multi_def py_keys_def py_inter_def py_div_def
        domain_step_def instances_def fill_matrix_3_1 Munkres_3_1)

lemma CompareTwoClusters_B_A:
  "CompareTwoClusters g_multi ''B'' ''A'' = Inr (0.64 * (1 - exp (- 0.3)))"
  by (simp add: CompareTwoClusters_def g_multi_def py_keys_def py_inter_def py_div_def
        domain_step_def instances_def fill_matrix_1_3 Munkres_1_3 algebra_simps)

lemma window_pairs_aaaab:
  "window_pairs [''a'', ''a'', ''a'', ''a'', ''b''] 4 = [(''a'', ''a''), (''a'', ''a''), (''a'', ''a'')]"
  "window_pairs [''a'', ''b'', ''b'', ''b'', ''a''] 4 = [(''a'', ''b''), (''a'', ''b''), (''a'', ''b'')]"
  "window_pairs [''b'', ''a'', ''a'', ''a'', ''a''] 4 = [(''b'', ''a''), (''b'', ''a''), (''b'', ''a'')]"
  by (simp_all add: window_pairs_def upt_rec)

lemma calculate_GK_aaaab:
  "calculate_GK [''a'', ''a'', ''a'', ''a'', ''b''] [''a'', ''b'', ''b'', ''b'', ''a''] 4 = 1/2"
  "calculate_GK [''b'', ''a'', ''a'', ''a'', ''a''] [''a'', ''b'', ''b'', ''b'', ''a''] 4 = 1"
  "calculate_GK [''a'', ''b'', ''b'', ''b'', ''a''] [''a'', ''a'', ''a'', ''a'', ''b''] 4 = 1/2"
  by (simp_all add: calculate_GK_def window_pairs_aaaab py_inter_def)

lemma Distance_modified_aaaab_abbba:
  "Distance_modified \<lparr>Jaccardw = 0.4, DDSw = 0.2, GKw = 0.4\<rparr>
     [''a'', ''a'', ''a'', ''a'', ''b''] [''a'', ''b'', ''b'', ''b'', ''a''] 0 4
   = Inr (0.2 - 0.2 * exp (- (4/7)))"
  by (simp add: Distance_modified_def Distance_of_lists_def calculate_GK_aaaab py_inter_def
        py_div_def)

lemma Distance_modified_abbba_aaaab:
  "Distance_modified \<lparr>Jaccardw = 0.4, DDSw = 0.2, GKw = 0.4\<rparr>
     [''a'', ''b'', ''b'', ''b'', ''a''] [''a'', ''a'', ''a'', ''a'', ''b''] 0 4
   = Inr (0.4 - 0.2 * exp (- (4/7)))"
proof -
  have "exp (- (4/7) :: real) < 1" by simp
  then have "\<not> 2 < exp (- (4/7) :: real)" by linarith
  then show ?thesis
    by (simp add: Distance_modified_def Distance_of_lists_def calculate_GK_aaaab py_inter_def
          py_div_def Let_def)
qed

text \<open>
  Claim C5 fails on the code in both modes. In mode seqdist a cluster with three instances of
  a domain and a cluster with one instance have distance 0 in one order and
  \<open>0.64 * (1 - exp (- 0.3))\<close> in the other: the loops fill the matrix only at and above
  the diagonal and mirror each entry. In mode domain\_dist the lists a a a a b and a b b b a
  have distance \<open>0.2 - 0.2 * exp (- 4/7)\<close> in one order and \<open>0.4 - 0.2 * exp (- 4/7)\<close>
  in the other.
\<close>

theorem distance_not_symmetric:
  "CompareTwoClusters g_multi ''A'' ''B'' = Inr 0
   \<and> CompareTwoClusters g_multi ''B'' ''A'' = Inr (0.64 * (1 - exp (- 0.3)))
   \<and> 0.64 * (1 - exp (- 0.3)) \<noteq> (0::real)
   \<and> Distance_modified \<lparr>Jaccardw = 0.4, DDSw = 0.2, GKw = 0.4\<rparr>
        [''a'', ''a'', ''a'', ''a'', ''b''] [''a'', ''b'', ''b'', ''b'', ''a''] 0 4
        = Inr (0.2 - 0.2 * exp (- (4/7)))
   \<and> Distance_modified \<lparr>Jaccardw = 0.4, DDSw = 0.2, GKw = 0.4\<rparr>
        [''a'', ''b'', ''b'', ''b'', ''a''] [''a'', ''a'', ''a'', ''a'', ''b''] 0 4
        = Inr (0.4 - 0.2 * exp (- (4/7)))
   \<and> 0.2 - 0.2 * exp (- (4/7)) \<noteq> 0.4 - 0.2 * exp (- (4/7) :: real)"
  using CompareTwoClusters_A_B CompareTwoClusters_B_A Distance_modified_aaaab_abbba
    Distance_modified_abbba_aaaab
  by simp

lemma Distance_modified_empty:
  "Distance_modified w [] B 0 nbhood = Inr 1" "Distance_modified w A [] 0 nbhood = Inr 1"
  by (simp_all add: Distance_modified_def Distance_of_lists_def)

text \<open>
  Claim C6 fails on the code in mode seqdist, which has no test for an empty cluster (mode
  domain\_dist has one, lemma \<open>Distance_modified_empty\<close>): a cluster without domains
  against a cluster with one domain has the distance \<open>1 - 0.64 * exp (- 1)\<close>, not 1, and
  against a cluster without domains the Jaccard index divides by zero.
\<close>

theorem CompareTwoClusters_empty_cluster:
  "CompareTwoClusters g_multi ''E'' ''B'' = Inr (1 - 0.64 * exp (- 1))
   \<and> 1 - 0.64 * exp (- 1) \<noteq> (1::real)
   \<and> CompareTwoClusters g_multi ''E'' ''E'' = Inl ZeroDivisionError"
  by (simp add: CompareTwoClusters_def g_multi_def py_keys_def py_inter_def py_div_def
        domain_step_def instances_def)

lemma fill_matrix_2_1:
  "fill_matrix Map.empty ''PF1'' [''a0'', ''a1''] [''b0''] = [[0.9,0],[0,0]]"
  by (simp add: fill_matrix_def fill_indices_def fill_entry_def zeros_def set_entry_def
        dms_distance_def sorted_pair_def upt_rec numeral_2_eq_2 Let_def)

lemma spec_fill_matrix_2_1:
  "spec_fill_matrix Map.empty ''PF1'' [''a0'', ''a1''] [''b0''] = [[0.9,0],[0.9,0]]"
  by (simp add: spec_fill_matrix_def dms_distance_def sorted_pair_def upt_rec numeral_2_eq_2
        Let_def)

lemma Munkres_2_1:
  "assignment_cost [[0.9,0],[0,0]] (Munkres_compute [[0.9,0],[0,0]]) = 0"
  "assignment_cost [[0.9,0],[0.9,0]] (Munkres_compute [[0.9,0],[0.9,0]]) = 0.9"
  by (simp_all add: Munkres_compute_def assignment_cost_def upt_rec numeral_2_eq_2)

text \<open>
  Claim C7 fails on the code. For two instances a0, a1 on one side and one instance b0 on the
  other (nothing in the DMS, so every pair has the fallback 0.9) the code fills only the entry
  of the pair (a0, b0); the entry of the existing pair (a1, b0) stays 0. The assignment then
  costs 0, where the matrix that holds every existing pair gives 0.9.
\<close>

theorem fill_matrix_misses_cross_pairs:
  "fill_matrix Map.empty ''PF1'' [''a0'', ''a1''] [''b0''] = [[0.9, 0], [0, 0]]
   \<and> spec_fill_matrix Map.empty ''PF1'' [''a0'', ''a1''] [''b0''] = [[0.9, 0], [0.9, 0]]
   \<and> domain_step Map.empty [(''PF1'', [''a0'', ''a1''])] [(''PF1'', [''b0''])] ''PF1'' (0, 0)
        = (0, 2)
   \<and> assignment_cost (spec_fill_matrix Map.empty ''PF1'' [''a0'', ''a1''] [''b0''])
        (Munkres_compute (spec_fill_matrix Map.empty ''PF1'' [''a0'', ''a1''] [''b0''])) = 0.9"
  by (simp add: domain_step_def instances_def fill_matrix_2_1 spec_fill_matrix_2_1 Munkres_2_1)

subsection \<open>Overlapping hits after \<open>check_overlap\<close>\<close>

lemma overlap_perc_Inr: "overlap_perc ovl len_seq = Inr p \<Longrightarrow> p = real_of_int ovl / real_of_int len_seq"
  by (simp add: overlap_perc_def split: if_splits)

lemma compare_rows_Inr:
  assumes "compare_rows c r1 r2 dl = Inr dl'"
  shows "dl' = dl @ appended c r1 r2"
proof (cases "no_overlap (env_from r1) (env_to r1) (env_from r2) (env_to r2)")
  case True
  with assms show ?thesis
    by (simp add: compare_rows_def appended_def significant_overlap_def)
next
  case False
  define ov where "ov = overlap (env_from r1) (env_to r1) (env_from r2) (env_to r2)"
  from assms False obtain p1 where p1: "overlap_perc ov (env_to r1 - env_from r1) = Inr p1"
    by (cases "overlap_perc ov (env_to r1 - env_from r1)")
       (simp_all add: compare_rows_def Let_def ov_def)
  from assms False p1 obtain p2 where p2: "overlap_perc ov (env_to r2 - env_from r2) = Inr p2"
    by (cases "overlap_perc ov (env_to r2 - env_from r2)")
       (simp_all add: compare_rows_def Let_def ov_def)
  have sig: "significant_overlap c r1 r2 = (p1 > c \<or> p2 > c)"
    using False overlap_perc_Inr [OF p1] overlap_perc_Inr [OF p2]
    by (simp add: significant_overlap_def ov_def)
  from assms False p1 p2 show ?thesis
    unfolding compare_rows_def Let_def ov_def [symmetric] appended_def sig
    by (auto split: if_splits)
qed

lemma row2_loop_Cons_Inr:
  assumes "row2_loop c i r1 (r2 # rest) j dl = Inr dl'"
  shows "row2_loop c i r1 rest (j + 1)
           (dl @ (if i \<noteq> j + 1 \<and> cds_header r1 = cds_header r2 then appended c r1 r2 else []))
         = Inr dl'"
proof (cases "i \<noteq> j + 1 \<and> cds_header r1 = cds_header r2")
  case True
  with assms obtain dl1 where c: "compare_rows c r1 r2 dl = Inr dl1"
    and r: "row2_loop c i r1 rest (j + 1) dl1 = Inr dl'"
    by (cases "compare_rows c r1 r2 dl") simp_all
  from compare_rows_Inr [OF c] r True show ?thesis by simp
next
  case False
  with assms show ?thesis by auto
qed

lemma row2_loop_mono:
  "row2_loop c i r1 rows j dl = Inr dl' \<Longrightarrow> count_list dl x \<le> count_list dl' x"
proof (induction rows arbitrary: j dl)
  case Nil
  then show ?case by simp
next
  case (Cons r2 rest)
  from Cons.IH [OF row2_loop_Cons_Inr [OF Cons.prems]] show ?case by simp
qed

lemma row2_loop_loser:
  assumes "row2_loop c i r1 rows j dl = Inr dl'"
    and "y \<in> set rows" "cds_header r1 = cds_header y" "significant_overlap c r1 y"
    and "score r1 < score y"
    and "\<forall>k < length rows. i = j + k + 1 \<longrightarrow> rows ! k = r1"
  shows "count_list dl r1 < count_list dl' r1"
  using assms(1,2,6)
proof (induction rows arbitrary: j dl)
  case Nil
  then show ?case by simp
next
  case (Cons r2 rest)
  note step = row2_loop_Cons_Inr [OF Cons.prems(1)]
  show ?case
  proof (cases "r2 = y")
    case True
    have "y \<noteq> r1" using assms(5) by auto
    with Cons.prems(3) True have "i \<noteq> j + 1" by auto
    with True assms(3,4,5) have
      "row2_loop c i r1 rest (j + 1) (dl @ [r1]) = Inr dl'"
      using step by (simp add: appended_def)
    from row2_loop_mono [OF this, of r1] show ?thesis by simp
  next
    case False
    with Cons.prems(2) have y: "y \<in> set rest" by simp
    have inv: "\<forall>k < length rest. i = (j + 1) + k + 1 \<longrightarrow> rest ! k = r1"
      using Cons.prems(3) by auto
    from Cons.IH [OF step y inv] show ?thesis by simp
  qed
qed

lemma row2_loop_winner:
  assumes "row2_loop c i r1 rows j dl = Inr dl'"
    and "cds_header r1 = cds_header y" "significant_overlap c r1 y"
    and "score r1 > score y"
    and "\<forall>k < length rows. i = j + k + 1 \<longrightarrow> rows ! k = r1"
  shows "count_list dl y + count_list rows y \<le> count_list dl' y"
  using assms(1,5)
proof (induction rows arbitrary: j dl)
  case Nil
  then show ?case by simp
next
  case (Cons r2 rest)
  note step = row2_loop_Cons_Inr [OF Cons.prems(1)]
  have inv: "\<forall>k < length rest. i = (j + 1) + k + 1 \<longrightarrow> rest ! k = r1"
    using Cons.prems(2) by auto
  show ?case
  proof (cases "r2 = y")
    case True
    have "y \<noteq> r1" using assms(4) by auto
    with Cons.prems(2) True have "i \<noteq> j + 1" by auto
    with True assms(2,3,4) have
      s: "row2_loop c i r1 rest (j + 1) (dl @ [y]) = Inr dl'"
      using step by (simp add: appended_def)
    from Cons.IH [OF s inv] True show ?thesis by simp
  next
    case False
    from Cons.IH [OF step inv] row2_loop_mono [OF step, of y] False show ?thesis by simp
  qed
qed


lemma row1_loop_Cons_Inr:
  assumes "row1_loop c m (r1 # rest) i dl = Inr dl'"
  shows "\<exists>dl1. row2_loop c (i + 1) r1 m 0 dl = Inr dl1 \<and> row1_loop c m rest (i + 1) dl1 = Inr dl'"
  using assms by (cases "row2_loop c (i + 1) r1 m 0 dl") simp_all

lemma row1_loop_mono:
  "row1_loop c m rows i dl = Inr dl' \<Longrightarrow> count_list dl x \<le> count_list dl' x"
proof (induction rows arbitrary: i dl)
  case Nil
  then show ?case by simp
next
  case (Cons r1 rest)
  from row1_loop_Cons_Inr [OF Cons.prems] obtain dl1 where
    a: "row2_loop c (i + 1) r1 m 0 dl = Inr dl1" and b: "row1_loop c m rest (i + 1) dl1 = Inr dl'"
    by blast
  from row2_loop_mono [OF a, of x] Cons.IH [OF b] show ?case by simp
qed

lemma drop_Cons_nth: "drop i m = r1 # rest \<Longrightarrow> i < length m \<and> m ! i = r1 \<and> drop (i + 1) m = rest"
proof -
  assume a: "drop i m = r1 # rest"
  then have i: "i < length m" by (cases "i < length m") simp_all
  from Cons_nth_drop_Suc [OF i] a show ?thesis using i by simp
qed

lemma row1_loop_loser:
  assumes "row1_loop c m rows i dl = Inr dl'" "rows = drop i m"
    and "y \<in> set m" "cds_header x = cds_header y" "significant_overlap c x y" "score x < score y"
  shows "count_list dl x + count_list rows x \<le> count_list dl' x"
  using assms(1,2)
proof (induction rows arbitrary: i dl)
  case Nil
  then show ?case by simp
next
  case (Cons r1 rest)
  from row1_loop_Cons_Inr [OF Cons.prems(1)] obtain dl1 where
    a: "row2_loop c (i + 1) r1 m 0 dl = Inr dl1" and b: "row1_loop c m rest (i + 1) dl1 = Inr dl'"
    by blast
  from drop_Cons_nth [OF Cons.prems(2) [symmetric]]
  have i: "i < length m" "m ! i = r1" and d: "rest = drop (i + 1) m" by simp_all
  have inv: "\<forall>k < length m. i + 1 = 0 + k + 1 \<longrightarrow> m ! k = r1" using i by simp
  have IH: "count_list dl1 x + count_list rest x \<le> count_list dl' x"
    by (rule Cons.IH [OF b d])
  show ?case
  proof (cases "r1 = x")
    case True
    from row2_loop_loser [OF a assms(3) _ _ _ inv] True assms(4,5,6)
    have "count_list dl x < count_list dl1 x" by simp
    with IH True show ?thesis by simp
  next
    case False
    from row2_loop_mono [OF a, of x] IH False show ?thesis by simp
  qed
qed

lemma row1_loop_winner:
  assumes "row1_loop c m rows i dl = Inr dl'" "rows = drop i m"
    and "x \<in> set rows" "cds_header x = cds_header y" "significant_overlap c x y" "score x > score y"
  shows "count_list dl y + count_list m y \<le> count_list dl' y"
  using assms(1,2,3)
proof (induction rows arbitrary: i dl)
  case Nil
  then show ?case by simp
next
  case (Cons r1 rest)
  from row1_loop_Cons_Inr [OF Cons.prems(1)] obtain dl1 where
    a: "row2_loop c (i + 1) r1 m 0 dl = Inr dl1" and b: "row1_loop c m rest (i + 1) dl1 = Inr dl'"
    by blast
  from drop_Cons_nth [OF Cons.prems(2) [symmetric]]
  have i: "i < length m" "m ! i = r1" and d: "rest = drop (i + 1) m" by simp_all
  have inv: "\<forall>k < length m. i + 1 = 0 + k + 1 \<longrightarrow> m ! k = r1" using i by simp
  show ?case
  proof (cases "r1 = x")
    case True
    from row2_loop_winner [OF a _ _ _ inv, of y] True assms(4,5,6)
    have "count_list dl y + count_list m y \<le> count_list dl1 y" by simp
    with row1_loop_mono [OF b, of y] show ?thesis by simp
  next
    case False
    with Cons.prems(3) have "x \<in> set rest" by simp
    from Cons.IH [OF b d this] row2_loop_mono [OF a, of y] show ?thesis by simp
  qed
qed

lemma count_list_remove1:
  "count_list (remove1 a xs) x = (if a = x then count_list xs x - 1 else count_list xs x)"
  by (induction xs) auto

lemma count_list_fold_remove1:
  "count_list (fold remove1 dl m) x = count_list m x - count_list dl x"
proof (induction dl arbitrary: m)
  case Nil
  then show ?case by simp
next
  case (Cons a dl)
  have "count_list (fold remove1 (a # dl) m) x = count_list (remove1 a m) x - count_list dl x"
    using Cons.IH [of "remove1 a m"] by simp
  also have "\<dots> = count_list m x - count_list (a # dl) x"
    by (simp add: count_list_remove1)
  finally show ?case .
qed

lemma set_fold_remove1: "set (fold remove1 dl m) \<subseteq> set m"
proof (induction dl arbitrary: m)
  case Nil
  then show ?case by simp
next
  case (Cons a dl)
  have "set (fold remove1 dl (remove1 a m)) \<subseteq> set (remove1 a m)" by (rule Cons.IH)
  also have "\<dots> \<subseteq> set m" by (rule set_remove1_subset)
  finally show ?case by simp
qed


lemma check_overlap_Inr:
  assumes "check_overlap pfd_matrix overlap_cutoff = Inr (retained, domains)"
  shows "\<exists>dl. row1_loop overlap_cutoff pfd_matrix pfd_matrix 0 [] = Inr dl \<and>
           retained = sort_key env_from (fold remove1 dl pfd_matrix)"
proof (cases "row1_loop overlap_cutoff pfd_matrix pfd_matrix 0 []")
  case (Inl e)
  with assms show ?thesis by (simp add: check_overlap_def)
next
  case (Inr dl)
  with assms have "retained = sort_key env_from (fold remove1 dl pfd_matrix)"
    by (simp add: check_overlap_def Let_def)
  with Inr show ?thesis by blast
qed


lemma check_overlap_no_significant_overlap:
  assumes "check_overlap pfd_matrix overlap_cutoff = Inr (retained, domains)"
  shows "\<forall>x \<in> set retained. \<forall>y \<in> set retained.
           cds_header x = cds_header y \<and> score x \<noteq> score y \<longrightarrow>
           \<not> significant_overlap overlap_cutoff x y"
proof (intro ballI impI notI)
  fix x y
  assume x: "x \<in> set retained" and y: "y \<in> set retained"
    and h: "cds_header x = cds_header y \<and> score x \<noteq> score y"
    and sg: "significant_overlap overlap_cutoff x y"
  from check_overlap_Inr [OF assms] obtain dl where
    dl: "row1_loop overlap_cutoff pfd_matrix pfd_matrix 0 [] = Inr dl" and
    ret: "retained = sort_key env_from (fold remove1 dl pfd_matrix)"
    by blast
  have xr: "x \<in> set (fold remove1 dl pfd_matrix)"
    using x unfolding ret by simp
  have yr: "y \<in> set (fold remove1 dl pfd_matrix)"
    using y unfolding ret by simp
  have xm: "x \<in> set pfd_matrix"
    using xr set_fold_remove1 [of dl pfd_matrix] by (rule set_mp [rotated])
  have ym: "y \<in> set pfd_matrix"
    using yr set_fold_remove1 [of dl pfd_matrix] by (rule set_mp [rotated])
  have d0: "pfd_matrix = drop 0 pfd_matrix" by simp
  have cds: "cds_header x = cds_header y" and ne: "score x \<noteq> score y"
    using h by simp_all
  from ne have "score x < score y \<or> score y < score x" by linarith
  then show False
  proof
    assume lt: "score x < score y"
    have "count_list [] x + count_list pfd_matrix x \<le> count_list dl x"
      by (rule row1_loop_loser [OF dl d0 ym cds sg lt])
    then have "count_list (fold remove1 dl pfd_matrix) x = 0"
      by (simp add: count_list_fold_remove1)
    with xr show False by (simp add: count_list_0_iff)
  next
    assume gt: "score y < score x"
    have "count_list [] y + count_list pfd_matrix y \<le> count_list dl y"
      by (rule row1_loop_winner [OF dl d0 xm cds sg gt])
    then have "count_list (fold remove1 dl pfd_matrix) y = 0"
      by (simp add: count_list_fold_remove1)
    with yr show False by (simp add: count_list_0_iff)
  qed
qed

lemma overlap_commute: "overlap a1 a2 b1 b2 = overlap b1 b2 a1 a2"
  by (simp add: overlap_def Let_def)

lemma no_overlap_negative:
  assumes "a1 \<le> a2" "b1 \<le> b2" "no_overlap a1 a2 b1 b2"
  shows "overlap a1 a2 b1 b2 < 0"
  using assms by (auto simp: no_overlap_def overlap_def Let_def split: if_splits)

lemma no_overlap_fraction:
  assumes "env_from x \<le> env_to x" "env_from y \<le> env_to y"
    and "no_overlap (env_from x) (env_to x) (env_from y) (env_to y)"
  shows "overlap_fraction x y \<le> 0 \<and> overlap_fraction y x \<le> 0"
proof -
  have n: "overlap (env_from x) (env_to x) (env_from y) (env_to y) < 0"
    by (rule no_overlap_negative [OF assms])
  then have n': "overlap (env_from y) (env_to y) (env_from x) (env_to x) < 0"
    by (simp add: overlap_commute)
  have "overlap_fraction x y \<le> 0"
    unfolding overlap_fraction_def using n assms(1)
    by (intro divide_nonpos_nonneg) simp_all
  moreover have "overlap_fraction y x \<le> 0"
    unfolding overlap_fraction_def using n' assms(2)
    by (intro divide_nonpos_nonneg) simp_all
  ultimately show ?thesis by blast
qed

lemma significant_overlap_fraction:
  "significant_overlap c x y =
     (no_overlap (env_from x) (env_to x) (env_from y) (env_to y) = False \<and>
      (c < overlap_fraction x y \<or> c < overlap_fraction y x))"
  by (simp add: significant_overlap_def overlap_fraction_def overlap_commute [of "env_from y"])

text \<open>
  Claim C8, as the code has it. When \<open>check_overlap\<close> returns (no compared hit has
  length 0), the cutoff is not negative and every hit has its start at or before its end, no
  two retained hits on the same coding sequence with different scores have an overlap that,
  as a fraction of the length of either hit, exceeds the cutoff. Nothing is said of two
  retained hits with the same score: the code compares scores strictly and removes neither
  for the other.
\<close>

theorem check_overlap_no_unequal_overlap:
  assumes "check_overlap pfd_matrix overlap_cutoff = Inr (retained, domains)"
    and "0 \<le> overlap_cutoff"
    and "\<forall>r \<in> set pfd_matrix. env_from r \<le> env_to r"
  shows "\<forall>x \<in> set retained. \<forall>y \<in> set retained.
           cds_header x = cds_header y \<and> score x \<noteq> score y \<longrightarrow>
           \<not> (overlap_cutoff < overlap_fraction x y \<or> overlap_cutoff < overlap_fraction y x)"
proof (intro ballI impI)
  fix x y
  assume x: "x \<in> set retained" and y: "y \<in> set retained"
    and h: "cds_header x = cds_header y \<and> score x \<noteq> score y"
  from check_overlap_Inr [OF assms(1)] obtain dl where
    ret: "retained = sort_key env_from (fold remove1 dl pfd_matrix)"
    by blast
  have "set retained \<subseteq> set pfd_matrix"
    unfolding ret using set_fold_remove1 [of dl pfd_matrix] by simp
  with x y assms(3) have wf: "env_from x \<le> env_to x" "env_from y \<le> env_to y"
    by blast+
  have ns: "\<not> significant_overlap overlap_cutoff x y"
    using check_overlap_no_significant_overlap [OF assms(1)] x y h by blast
  show "\<not> (overlap_cutoff < overlap_fraction x y \<or> overlap_cutoff < overlap_fraction y x)"
  proof (cases "no_overlap (env_from x) (env_to x) (env_from y) (env_to y)")
    case True
    from no_overlap_fraction [OF wf True] assms(2) show ?thesis by linarith
  next
    case False
    with ns show ?thesis by (simp add: significant_overlap_fraction)
  qed
qed

lemma check_overlap_three_hits:
  "check_overlap [hit ''A'' 50 0 100, hit ''B'' 30 80 180, hit ''C'' 40 200 300] 0.1 =
     Inr ([hit ''A'' 50 0 100, hit ''C'' 40 200 300], [''A'', ''C''])"
  by (simp add: check_overlap_def hit_def compare_rows_def no_overlap_def overlap_def
        overlap_perc_def Let_def)

theorem check_overlap_no_unequal_overlap_witness:
  "check_overlap [hit ''A'' 50 0 100, hit ''B'' 30 80 180, hit ''C'' 40 200 300] 0.1 =
     Inr ([hit ''A'' 50 0 100, hit ''C'' 40 200 300], [''A'', ''C''])
   \<and> \<not> (0.1 < overlap_fraction (hit ''A'' 50 0 100) (hit ''C'' 40 200 300) \<or>
          0.1 < overlap_fraction (hit ''C'' 40 200 300) (hit ''A'' 50 0 100))"
proof -
  have a: "(0::real) \<le> 0.1" by simp
  have b: "\<forall>r \<in> set [hit ''A'' 50 0 100, hit ''B'' 30 80 180, hit ''C'' 40 200 300].
             env_from r \<le> env_to r"
    by (simp add: hit_def)
  note t = check_overlap_no_unequal_overlap [OF check_overlap_three_hits a b]
  have x: "hit ''A'' 50 0 100 \<in> set [hit ''A'' 50 0 100, hit ''C'' 40 200 300]"
    and y: "hit ''C'' 40 200 300 \<in> set [hit ''A'' 50 0 100, hit ''C'' 40 200 300]"
    by simp_all
  have h: "cds_header (hit ''A'' 50 0 100) = cds_header (hit ''C'' 40 200 300) \<and>
           score (hit ''A'' 50 0 100) \<noteq> score (hit ''C'' 40 200 300)"
    by (simp add: hit_def)
  from bspec [OF bspec [OF t x] y] h
  have "\<not> (0.1 < overlap_fraction (hit ''A'' 50 0 100) (hit ''C'' 40 200 300) \<or>
          0.1 < overlap_fraction (hit ''C'' 40 200 300) (hit ''A'' 50 0 100))"
    by (rule mp)
  with check_overlap_three_hits show ?thesis by (rule conjI)
qed

text \<open>
  The claim as the specification words it fails on a table of two hits of one coding sequence
  on the same interval with the same score: neither is removed, and each overlaps the other on
  all of its length.
\<close>

theorem check_overlap_no_unequal_overlap_counterexample:
  "check_overlap [hit ''A'' 50 0 100, hit ''B'' 50 0 100] 0.1 =
     Inr ([hit ''A'' 50 0 100, hit ''B'' 50 0 100], [''A'', ''B''])
   \<and> cds_header (hit ''A'' 50 0 100) = cds_header (hit ''B'' 50 0 100)
   \<and> overlap_fraction (hit ''A'' 50 0 100) (hit ''B'' 50 0 100) = 1
   \<and> (0.1::real) < 1"
  by (simp add: check_overlap_def hit_def compare_rows_def no_overlap_def overlap_def
        overlap_perc_def overlap_fraction_def Let_def)

text \<open>The fourth scenario of the specification: the hit with score 30 is removed.\<close>

lemma check_overlap_scenario_4:
  "check_overlap [hit ''A'' 50 0 100, hit ''B'' 30 80 180] 0.1 =
     Inr ([hit ''A'' 50 0 100], [''A''])"
  by (simp add: check_overlap_def hit_def compare_rows_def no_overlap_def overlap_def
        overlap_perc_def Let_def)

end
